theory Spec2Isabelle
  imports Main "HOL-Library.Sublist"
begin

section \<open>String primitives of the host language\<close>

text \<open>
  The program is TypeScript. A string is a finite sequence of code units; the model takes
  a \<^typ>\<open>string\<close> (a list of \<^typ>\<open>char\<close>) for it, one \<^typ>\<open>char\<close> per code unit
  below 256. The built-in string methods the source calls are written out here with the
  result the language gives them, also where an index is out of range.
\<close>

text \<open>\<^verbatim>\<open>s.charAt(i)\<close>: the one-unit string at index \<open>i\<close>, the empty string out of range.\<close>

definition charAt :: "string \<Rightarrow> nat \<Rightarrow> string" where
  "charAt s i = (if i < length s then [s ! i] else [])"

text \<open>\<^verbatim>\<open>s.substring(a)\<close> and \<^verbatim>\<open>s.substring(a, b)\<close>; the two-argument form swaps its
  arguments when \<open>a > b\<close>, and both clamp to the length.\<close>

definition substringFrom :: "string \<Rightarrow> nat \<Rightarrow> string" where
  "substringFrom s a = drop a s"

definition substring :: "string \<Rightarrow> nat \<Rightarrow> nat \<Rightarrow> string" where
  "substring s a b = take (max a b - min a b) (drop (min a b) s)"

text \<open>\<^verbatim>\<open>s.indexOf(t)\<close>: the least index at which \<open>t\<close> occurs in \<open>s\<close>, \<open>-1\<close> when it
  does not occur.\<close>

fun indexOf :: "string \<Rightarrow> string \<Rightarrow> int" where
  "indexOf [] t = (if t = [] then 0 else - 1)"
| "indexOf (c # cs) t =
     (if prefix t (c # cs) then 0
      else (let p = indexOf cs t in if p < 0 then - 1 else p + 1))"

text \<open>\<^verbatim>\<open>s.startsWith(t)\<close> and \<^verbatim>\<open>s.endsWith(t)\<close>.\<close>

definition startsWith :: "string \<Rightarrow> string \<Rightarrow> bool" where
  "startsWith s t = prefix t s"

definition endsWith :: "string \<Rightarrow> string \<Rightarrow> bool" where
  "endsWith s t = suffix t s"

text \<open>\<^verbatim>\<open>s.trim()\<close> removes white space and line terminators from both ends. Among the
  code units below 256 these are TAB, LF, VT, FF, CR, SPACE and NBSP.\<close>

definition isWhiteSpace :: "char \<Rightarrow> bool" where
  "isWhiteSpace c =
     (c = CHR 0x09 \<or> c = CHR 0x0A \<or> c = CHR 0x0B \<or> c = CHR 0x0C \<or> c = CHR 0x0D
      \<or> c = CHR '' '' \<or> c = CHR 0xA0)"

definition trim :: "string \<Rightarrow> string" where
  "trim s = rev (dropWhile isWhiteSpace (rev (dropWhile isWhiteSpace s)))"

text \<open>\<^verbatim>\<open>s.split('\n')\<close>: the pieces between line feeds; the empty string gives one
  empty piece.\<close>

fun splitLines :: "string \<Rightarrow> string list" where
  "splitLines [] = [[]]"
| "splitLines (c # cs) =
     (if c = CHR 0x0A then [] # splitLines cs
      else (case splitLines cs of
              [] \<Rightarrow> [[c]]
            | l # ls \<Rightarrow> (c # l) # ls))"

section \<open>Defines\<close>

record Define =
  key :: string
  "value" :: string

text \<open>
  \<^verbatim>\<open>
  function buildDefine(text: string, splitter: string): Define {
    let pos: number = text.indexOf(splitter);
    if (pos >= 0) {
      return { key: text.substring(0, pos), value: text.substring(pos + 1) };
    }
    return { key: text, value: '1' };
  }
  \<close>
\<close>

definition buildDefine :: "string \<Rightarrow> string \<Rightarrow> Define" where
  "buildDefine text splitter =
     (let pos = indexOf text splitter in
      if pos \<ge> 0
      then \<lparr>key = substring text 0 (nat pos), value = substringFrom text (nat pos + 1)\<rparr>
      else \<lparr>key = text, value = ''1''\<rparr>)"

section \<open>The configuration model\<close>

text \<open>
  \<^verbatim>\<open>type VERSIONS = 'c89' | 'c99' | 'c11' | 'c++98' | 'c++03' | 'c++11' | 'c++14' | 'c++17'\<close>
  and \<^verbatim>\<open>type INTELLISENSE_MODES = 'msvc-x64' | 'gcc-x64' | 'clang-x64'\<close>: closed sets of
  string literals, here datatypes, with the literal each constructor stands for.
\<close>

datatype VERSIONS = c89 | c99 | c11 | cpp98 | cpp03 | cpp11 | cpp14 | cpp17

fun versionLiteral :: "VERSIONS \<Rightarrow> string" where
  "versionLiteral c89 = ''c89''"
| "versionLiteral c99 = ''c99''"
| "versionLiteral c11 = ''c11''"
| "versionLiteral cpp98 = ''c++98''"
| "versionLiteral cpp03 = ''c++03''"
| "versionLiteral cpp11 = ''c++11''"
| "versionLiteral cpp14 = ''c++14''"
| "versionLiteral cpp17 = ''c++17''"

datatype INTELLISENSE_MODES = msvc_x64 | gcc_x64 | clang_x64

datatype FileType = C | CPP

definition FRAMEWORK_MARKER :: string where
  "FRAMEWORK_MARKER = '' (framework directory)''"

definition CPP_STANDARD :: VERSIONS where
  "CPP_STANDARD = cpp14"

definition CPP_VERSION :: string where
  "CPP_VERSION = versionLiteral CPP_STANDARD"

definition C_STANDARD :: VERSIONS where
  "C_STANDARD = c99"

definition C_VERSION :: string where
  "C_VERSION = ''gnu99''"

text \<open>
  \<^verbatim>\<open>
  export interface CompileConfig {
    includes: Set<string>;
    defines: Map<string, Define>;
    forcedIncludes: Set<string>;
    intelliSenseMode: INTELLISENSE_MODES;
    standard: VERSIONS;
  }
  \<close>
  The record is parametric in what stands for a set and for a map. With the contents
  themselves (\<open>ConfigV\<close>) a function that mutates its argument returns the updated
  configuration. With references into a store of objects (\<open>ConfigR\<close>) two configurations
  can share a container, which is what cloning is about.
\<close>

record ('s, 'm) CompileConfig =
  "includes" :: 's
  "defines" :: 'm
  forcedIncludes :: 's
  intelliSenseMode :: INTELLISENSE_MODES
  standard :: VERSIONS

type_synonym ConfigV = "(string set, string \<rightharpoonup> Define) CompileConfig"

section \<open>The override parser\<close>

text \<open>
  \<^verbatim>\<open>
  let args: string[] = splitCmdLine(cmdLine);
  let arg: string|undefined;
  while (arg = args.shift()) {
    if (arg.length < 2 || (arg.charAt(0) !== '-' && arg.charAt(0) !== '/')) { continue; }
    switch (arg.charAt(1)) {
      case 'D':
        let define: Define = buildDefine(arg.substring(2), '=');
        config.defines.set(define.key, define);
        continue;
      case 'I':
        config.includes.add(arg.substring(2));
        continue;
    }
    if (arg === forceIncludeArg) {
      let include: string|undefined = args.shift();
      if (include) { config.forcedIncludes.add(include); }
      continue;
    }
  }
  \<close>
  The loop, on the tokens still in \<open>args\<close>. The loop condition is the shifted token
  itself: the loop ends when \<open>args\<close> is empty (\<open>shift\<close> gives \<open>undefined\<close>) and also when
  the shifted token is the empty string, which is falsy as well. The same holds for the
  test of \<open>include\<close>.
\<close>

fun argsLoop :: "string \<Rightarrow> string list \<Rightarrow> ConfigV \<Rightarrow> ConfigV" where
  "argsLoop forceIncludeArg [] config = config"
| "argsLoop forceIncludeArg (arg # args) config =
     (if arg = [] then config
      else if length arg < 2 \<or> (charAt arg 0 \<noteq> ''-'' \<and> charAt arg 0 \<noteq> ''/'')
        then argsLoop forceIncludeArg args config
      else if charAt arg 1 = ''D''
        then (let define = buildDefine (substringFrom arg 2) ''='' in
              argsLoop forceIncludeArg args
                (config\<lparr>defines := (defines config)(key define \<mapsto> define)\<rparr>))
      else if charAt arg 1 = ''I''
        then argsLoop forceIncludeArg args
               (config\<lparr>includes := insert (substringFrom arg 2) (includes config)\<rparr>)
      else if arg = forceIncludeArg
        then (case args of
                [] \<Rightarrow> argsLoop forceIncludeArg [] config
              | include # rest \<Rightarrow>
                  (if include \<noteq> []
                   then argsLoop forceIncludeArg rest
                          (config\<lparr>forcedIncludes := insert include (forcedIncludes config)\<rparr>)
                   else argsLoop forceIncludeArg rest config))
      else argsLoop forceIncludeArg args config)"

text \<open>
  Whether the loop, run on these tokens, ends in the branch \<^verbatim>\<open>arg === forceIncludeArg\<close>
  with \<^verbatim>\<open>args.shift()\<close> giving \<open>undefined\<close>: the last token was taken as the flag and found
  no path after it. The function follows the control flow of \<open>argsLoop\<close> and leaves the
  configuration out. When it holds for the tokens before a last token, that last token
  is the path of the flag before it.
\<close>

fun awaitsPath :: "string \<Rightarrow> string list \<Rightarrow> bool" where
  "awaitsPath forceIncludeArg [] = False"
| "awaitsPath forceIncludeArg (arg # args) =
     (if arg = [] then False
      else if length arg < 2 \<or> (charAt arg 0 \<noteq> ''-'' \<and> charAt arg 0 \<noteq> ''/'')
        then awaitsPath forceIncludeArg args
      else if charAt arg 1 = ''D'' then awaitsPath forceIncludeArg args
      else if charAt arg 1 = ''I'' then awaitsPath forceIncludeArg args
      else if arg = forceIncludeArg
        then (case args of
                [] \<Rightarrow> True
              | include # rest \<Rightarrow> awaitsPath forceIncludeArg rest)
      else awaitsPath forceIncludeArg args)"

text \<open>
  \<open>splitCmdLine\<close> is imported from \<^verbatim>\<open>./shared\<close>; the function takes it as a parameter.
  \<open>cmdLine\<close> is \<^verbatim>\<open>string|undefined\<close>; \<^verbatim>\<open>!cmdLine\<close> holds for \<open>undefined\<close> and for the empty
  string.
\<close>

definition addCompilerArgumentsToConfig ::
  "(string \<Rightarrow> string list) \<Rightarrow> string option \<Rightarrow> string \<Rightarrow> ConfigV \<Rightarrow> ConfigV" where
  "addCompilerArgumentsToConfig splitCmdLine cmdLine forceIncludeArg config =
     (case cmdLine of
        None \<Rightarrow> config
      | Some cl \<Rightarrow>
          if cl = [] then config else argsLoop forceIncludeArg (splitCmdLine cl) config)"

text \<open>
  Modelled from the spec: \<open>splitCmdLine\<close> of \<^verbatim>\<open>./shared\<close>, which is not among the source
  files. Section 4.1 of the specification: tokens are separated by white space; single-
  and double-quoted substrings belong to the token, the quotes are consumed; a backslash
  takes the next character literally (outside quotes and inside double quotes); empty
  input gives no token; an unterminated quote ends with the input. \<open>cur\<close> is the token
  under construction, \<open>None\<close> between tokens.
\<close>

datatype Quoting = Unquoted | SingleQuoted | DoubleQuoted

fun tokenize :: "Quoting \<Rightarrow> string option \<Rightarrow> string \<Rightarrow> string list" where
  "tokenize q cur [] = (case cur of None \<Rightarrow> [] | Some t \<Rightarrow> [t])"
| "tokenize Unquoted cur (c # cs) =
     (if c = CHR '' '' \<or> c = CHR 0x09 \<or> c = CHR 0x0A
        then (case cur of None \<Rightarrow> tokenize Unquoted None cs
                        | Some t \<Rightarrow> t # tokenize Unquoted None cs)
      else if c = CHR 0x27 then tokenize SingleQuoted (Some (case cur of None \<Rightarrow> [] | Some t \<Rightarrow> t)) cs
      else if c = CHR 0x22 then tokenize DoubleQuoted (Some (case cur of None \<Rightarrow> [] | Some t \<Rightarrow> t)) cs
      else if c = CHR 0x5C
        then (case cs of
                [] \<Rightarrow> tokenize Unquoted cur []
              | d # ds \<Rightarrow> tokenize Unquoted (Some ((case cur of None \<Rightarrow> [] | Some t \<Rightarrow> t) @ [d])) ds)
      else tokenize Unquoted (Some ((case cur of None \<Rightarrow> [] | Some t \<Rightarrow> t) @ [c])) cs)"
| "tokenize SingleQuoted cur (c # cs) =
     (if c = CHR 0x27 then tokenize Unquoted cur cs
      else tokenize SingleQuoted (Some ((case cur of None \<Rightarrow> [] | Some t \<Rightarrow> t) @ [c])) cs)"
| "tokenize DoubleQuoted cur (c # cs) =
     (if c = CHR 0x22 then tokenize Unquoted cur cs
      else if c = CHR 0x5C
        then (case cs of
                [] \<Rightarrow> tokenize DoubleQuoted cur []
              | d # ds \<Rightarrow> tokenize DoubleQuoted (Some ((case cur of None \<Rightarrow> [] | Some t \<Rightarrow> t) @ [d])) ds)
      else tokenize DoubleQuoted (Some ((case cur of None \<Rightarrow> [] | Some t \<Rightarrow> t) @ [c])) cs)"

definition splitCmdLine_spec :: "string \<Rightarrow> string list" where
  "splitCmdLine_spec cmdline = tokenize Unquoted None cmdline"

text \<open>
  The override parser as the specification words it (section 4.3): every token is
  classified on its own and the tokens are consumed left to right; a token that is not a
  flag, or a flag that is none of the three kinds, is passed over.
\<close>

datatype TokenKind =
  NotAFlag | DefineFlag string | IncludeFlag string | ForcedIncludeFlag | OtherFlag

definition classify :: "string \<Rightarrow> string \<Rightarrow> TokenKind" where
  "classify forceIncludeFlag t =
     (if length t < 2 \<or> (hd t \<noteq> CHR ''-'' \<and> hd t \<noteq> CHR ''/'') then NotAFlag
      else if t ! 1 = CHR ''D'' then DefineFlag (drop 2 t)
      else if t ! 1 = CHR ''I'' then IncludeFlag (drop 2 t)
      else if t = forceIncludeFlag then ForcedIncludeFlag
      else OtherFlag)"

fun overrides_spec :: "string \<Rightarrow> string list \<Rightarrow> ConfigV \<Rightarrow> ConfigV" where
  "overrides_spec forceIncludeFlag [] config = config"
| "overrides_spec forceIncludeFlag (t # ts) config =
     (case classify forceIncludeFlag t of
        NotAFlag \<Rightarrow> overrides_spec forceIncludeFlag ts config
      | DefineFlag r \<Rightarrow>
          overrides_spec forceIncludeFlag ts
            (config\<lparr>defines := (defines config)(key (buildDefine r ''='') \<mapsto> buildDefine r ''='')\<rparr>)
      | IncludeFlag r \<Rightarrow>
          overrides_spec forceIncludeFlag ts (config\<lparr>includes := insert r (includes config)\<rparr>)
      | ForcedIncludeFlag \<Rightarrow>
          (case ts of
             [] \<Rightarrow> config
           | p # rest \<Rightarrow>
               overrides_spec forceIncludeFlag rest
                 (config\<lparr>forcedIncludes := insert p (forcedIncludes config)\<rparr>))
      | OtherFlag \<Rightarrow> overrides_spec forceIncludeFlag ts config)"

text \<open>What a call adds to a configuration: more includes, more or overwritten defines,
  more forced includes.\<close>

definition extendConfig ::
  "ConfigV \<Rightarrow> string set \<Rightarrow> (string \<rightharpoonup> Define) \<Rightarrow> string set \<Rightarrow> ConfigV" where
  "extendConfig config incs defs forced =
     config\<lparr>includes := includes config \<union> incs,
            defines := defines config ++ defs,
            forcedIncludes := forcedIncludes config \<union> forced\<rparr>"

section \<open>The probing strategy\<close>

text \<open>
  \<^verbatim>\<open>
  let inIncludes: boolean = false;
  for (let line of lines) {
    if (inIncludes) {
      if (line.charAt(0) === ' ') {
        let include: string = line.trim();
        if (include.endsWith(FRAMEWORK_MARKER)) {
          defaults.includes.add(include.substring(0, include.length - FRAMEWORK_MARKER.length));
        } else {
          defaults.includes.add(include);
        }
        continue;
      } else {
        inIncludes = false;
      }
    }
    if (line.startsWith('#include ')) {
      inIncludes = true;
    } else if (line.startsWith('#define ')) {
      let define: Define = buildDefine(line.substring(8).trim(), ' ');
      defaults.defines.set(define.key, define);
    }
  }
  \<close>
  \<open>parseDirective\<close> is the second statement of the loop body. It is always entered with
  \<open>inIncludes\<close> false: either it was false, or the first statement has just cleared it.
  \<open>parseLine\<close> is the loop body, from the state before a line to the state after it.
\<close>

definition parseDirective :: "string \<Rightarrow> ConfigV \<Rightarrow> bool \<times> ConfigV" where
  "parseDirective line defaults =
     (if startsWith line ''#include '' then (True, defaults)
      else if startsWith line ''#define ''
        then (let define = buildDefine (trim (substringFrom line 8)) '' '' in
              (False, defaults\<lparr>defines := (defines defaults)(key define \<mapsto> define)\<rparr>))
      else (False, defaults))"

definition parseLine :: "string \<Rightarrow> bool \<Rightarrow> ConfigV \<Rightarrow> bool \<times> ConfigV" where
  "parseLine line inIncludes defaults =
     (if inIncludes
      then (if charAt line 0 = '' ''
            then (let include = trim line in
                  if endsWith include FRAMEWORK_MARKER
                  then (True, defaults\<lparr>includes :=
                          insert (substring include 0 (length include - length FRAMEWORK_MARKER))
                            (includes defaults)\<rparr>)
                  else (True, defaults\<lparr>includes := insert include (includes defaults)\<rparr>))
            else parseDirective line defaults)
      else parseDirective line defaults)"

fun parseLines :: "string list \<Rightarrow> bool \<Rightarrow> ConfigV \<Rightarrow> ConfigV" where
  "parseLines [] inIncludes defaults = defaults"
| "parseLines (line # lines) inIncludes defaults =
     (case parseLine line inIncludes defaults of
        (inIncludes', defaults') \<Rightarrow> parseLines lines inIncludes' defaults')"

text \<open>\<^verbatim>\<open>let lines: string[] = output.trim().split('\n');\<close> and the loop.\<close>

definition parseCompilerDefaults :: "string \<Rightarrow> ConfigV \<Rightarrow> ConfigV" where
  "parseCompilerDefaults output defaults =
     parseLines (splitLines (trim output)) False defaults"

text \<open>
  The diagnostic output of property 4 in section 8 of the specification: the header of
  the search list, two indented entries (the second a framework directory), the line
  that ends the list, and one predefined macro.
\<close>

definition fixture_output :: string where
  "fixture_output =
     ''#include <...> search starts here:'' @ [CHR 0x0A]
     @ '' /usr/include'' @ [CHR 0x0A]
     @ '' /System/Library/Frameworks (framework directory)'' @ [CHR 0x0A]
     @ ''End of search list.'' @ [CHR 0x0A]
     @ ''#define __VERSION__ '' @ [CHR 0x22, CHR ''1'', CHR 0x22]"

text \<open>
  A thrown \<^verbatim>\<open>Error\<close> (or a rejected promise) is the left summand of the result. The
  compiler object keeps the constructor's four arguments in the fields \<open>this.srcdir\<close>,
  \<open>this.command\<close>, \<open>this.type\<close> and \<open>this.defaults\<close>; \<open>cls\<close> is its class.
\<close>

datatype error = Error string

record ProcessResult =
  stdout :: string
  stderr :: string

datatype CompilerClass = ClangCompiler | MsvcCompiler

record ('p, 'c) Compiler =
  cls :: CompilerClass
  this_srcdir :: 'p
  this_command :: "string list"
  this_type :: FileType
  this_defaults :: 'c

text \<open>
  What \<open>fetch\<close> reads from its environment: \<^verbatim>\<open>process.platform\<close>, the command override
  \<^verbatim>\<open>await config.getCompiler(srcdir.toUri(), type)\<close> (a command or \<open>undefined\<close>), and
  \<^verbatim>\<open>await exec(cmd)\<close>, which gives the two captured streams or throws.
\<close>

record 'p Env =
  platform :: string
  getCompiler :: "'p \<Rightarrow> FileType \<Rightarrow> string list option"
  exec :: "string list \<Rightarrow> error + ProcessResult"

text \<open>The command that \<open>ClangCompiler.fetch\<close> builds before its \<^verbatim>\<open>try\<close> block.\<close>

definition probeCommand ::
  "'p Env \<Rightarrow> 'p \<Rightarrow> string list \<Rightarrow> FileType \<Rightarrow> (string \<rightharpoonup> string) \<Rightarrow> string list" where
  "probeCommand env srcdir command type buildConfig =
     (let sdk = (if platform env = ''darwin'' then buildConfig ''MACOS_SDK_DIR'' else None);
          defaultCmd = (case getCompiler env srcdir type of
                          Some override \<Rightarrow> override
                        | None \<Rightarrow> command);
          defaultCmd = (case type of
                          CPP \<Rightarrow> defaultCmd @ [''-std='' @ CPP_VERSION, ''-xc++'']
                        | C \<Rightarrow> defaultCmd @ [''-std='' @ C_VERSION, ''-xc'']);
          defaultCmd = (case sdk of
                          None \<Rightarrow> defaultCmd
                        | Some dir \<Rightarrow>
                            if dir \<noteq> [] \<and> platform env = ''darwin''
                            then defaultCmd @ [''-isysroot'', dir]
                            else defaultCmd)
      in defaultCmd @ [''-Wp,-v'', ''-E'', ''-dD'', ''/dev/null''])"

definition ClangCompiler_fetch ::
  "'p Env \<Rightarrow> 'p \<Rightarrow> string list \<Rightarrow> FileType \<Rightarrow> (string \<rightharpoonup> string)
     \<Rightarrow> error + ('p, ConfigV) Compiler" where
  "ClangCompiler_fetch env srcdir command type buildConfig =
     (case exec env (probeCommand env srcdir command type buildConfig) of
        Inl e \<Rightarrow> Inl e
      | Inr result \<Rightarrow>
          (let defaults = \<lparr>includes = {}, defines = Map.empty, forcedIncludes = {},
                           intelliSenseMode = clang_x64,
                           standard = (if type = C then C_STANDARD else CPP_STANDARD)\<rparr>;
               defaults = parseCompilerDefaults (stdout result) defaults;
               defaults = parseCompilerDefaults (stderr result) defaults
           in if includes defaults = {} \<or> defines defaults = Map.empty
              then Inl (Error ''Compiler returned empty includes or defined.'')
              else Inr \<lparr>cls = ClangCompiler, this_srcdir = srcdir, this_command = command,
                        this_type = type, this_defaults = defaults\<rparr>))"

section \<open>The static strategy\<close>

text \<open>
  \<^verbatim>\<open>
  let defaults: CompileConfig = {
    includes: new Set(), defines: new Map(), forcedIncludes: new Set(),
    intelliSenseMode: compilerType === 'msvc' ? 'msvc-x64' : 'clang-x64' as INTELLISENSE_MODES,
    standard: type === FileType.C ? C_STANDARD : CPP_STANDARD,
  };
  if (defaults.includes.size === 0 || defaults.defines.size === 0) {
    throw new Error('Compiler returned empty includes or defined.');
  }
  return new MsvcCompiler(srcdir, command, type, defaults);
  \<close>
\<close>

definition MsvcCompiler_fetch ::
  "'p \<Rightarrow> string list \<Rightarrow> FileType \<Rightarrow> string \<Rightarrow> error + ('p, ConfigV) Compiler" where
  "MsvcCompiler_fetch srcdir command type compilerType =
     (let defaults = \<lparr>includes = {}, defines = Map.empty, forcedIncludes = {},
                      intelliSenseMode = (if compilerType = ''msvc'' then msvc_x64 else clang_x64),
                      standard = (if type = C then C_STANDARD else CPP_STANDARD)\<rparr>
      in if includes defaults = {} \<or> defines defaults = Map.empty
         then Inl (Error ''Compiler returned empty includes or defined.'')
         else Inr \<lparr>cls = MsvcCompiler, this_srcdir = srcdir, this_command = command,
                   this_type = type, this_defaults = defaults\<rparr>)"

section \<open>The factory\<close>

text \<open>
  \<^verbatim>\<open>
  let compilerType: string|undefined = config.get('CC_TYPE');
  if (!compilerType) { throw new Error('Unable to determine compiler types.'); }
  switch (compilerType) {
    case 'clang': return ClangCompiler.fetch(srcdir, command, type, config);
    case 'clang-cl':
    case 'msvc': return MsvcCompiler.fetch(srcdir, command, type, compilerType);
    default: throw new Error(`Unknown compiler type ${compilerType}.`);
  }
  \<close>
  \<^verbatim>\<open>!compilerType\<close> holds for a missing key and for the empty string.
\<close>

definition Compiler_create ::
  "'p Env \<Rightarrow> 'p \<Rightarrow> string list \<Rightarrow> FileType \<Rightarrow> (string \<rightharpoonup> string)
     \<Rightarrow> error + ('p, ConfigV) Compiler" where
  "Compiler_create env srcdir command type config =
     (case config ''CC_TYPE'' of
        None \<Rightarrow> Inl (Error ''Unable to determine compiler types.'')
      | Some compilerType \<Rightarrow>
          if compilerType = [] then Inl (Error ''Unable to determine compiler types.'')
          else if compilerType = ''clang''
            then ClangCompiler_fetch env srcdir command type config
          else if compilerType = ''clang-cl'' \<or> compilerType = ''msvc''
            then MsvcCompiler_fetch srcdir command type compilerType
          else Inl (Error (''Unknown compiler type '' @ compilerType @ ''.'')))"

section \<open>Cloning, with the containers in a store\<close>

text \<open>
  A \<^verbatim>\<open>Set\<close>, a \<^verbatim>\<open>Map\<close> and a \<^verbatim>\<open>Define\<close> are objects: a configuration holds
  references to its containers, a map holds, under each key, a reference to a \<open>Define\<close>
  object, and a mutation through one reference is seen through every other reference to
  the same object. The store keeps, by address, the elements of every set object, the
  entries of every map object (key to address of a \<open>Define\<close>) and the fields of every
  \<open>Define\<close> object. \<^verbatim>\<open>new Set(s)\<close> and \<^verbatim>\<open>new Map(m)\<close> allocate the next address and
  copy the elements or the entries of their argument: the entries of the new map are the
  same references, no \<open>Define\<close> object is copied. An object literal
  \<^verbatim>\<open>{ key: ..., value: ... }\<close> allocates a \<open>Define\<close> object. The mutators of a container
  (\<open>add\<close>, \<open>delete\<close>, \<open>clear\<close>, \<open>set\<close>) write new contents at the address of their
  receiver; an assignment to a field of a \<open>Define\<close> writes at the address of that object.
\<close>

record Store =
  sets :: "string set list"
  maps :: "(string \<rightharpoonup> nat) list"
  objs :: "Define list"

type_synonym ConfigR = "(nat, nat) CompileConfig"

definition newSet :: "Store \<Rightarrow> string set \<Rightarrow> nat \<times> Store" where
  "newSet h contents = (length (sets h), h\<lparr>sets := sets h @ [contents]\<rparr>)"

definition newMap :: "Store \<Rightarrow> (string \<rightharpoonup> nat) \<Rightarrow> nat \<times> Store" where
  "newMap h entries = (length (maps h), h\<lparr>maps := maps h @ [entries]\<rparr>)"

definition newDefine :: "Store \<Rightarrow> Define \<Rightarrow> nat \<times> Store" where
  "newDefine h d = (length (objs h), h\<lparr>objs := objs h @ [d]\<rparr>)"

definition writeSet :: "Store \<Rightarrow> nat \<Rightarrow> string set \<Rightarrow> Store" where
  "writeSet h r contents = h\<lparr>sets := (sets h)[r := contents]\<rparr>"

definition writeMap :: "Store \<Rightarrow> nat \<Rightarrow> (string \<rightharpoonup> nat) \<Rightarrow> Store" where
  "writeMap h r entries = h\<lparr>maps := (maps h)[r := entries]\<rparr>"

definition writeDefine :: "Store \<Rightarrow> nat \<Rightarrow> Define \<Rightarrow> Store" where
  "writeDefine h a d = h\<lparr>objs := (objs h)[a := d]\<rparr>"

text \<open>\<^verbatim>\<open>m.set(k, { key: ..., value: ... })\<close>, as the override parser and the probe call it:
  a new \<open>Define\<close> object, stored under the key in the map at address \<open>r\<close>.\<close>

definition mapSet :: "Store \<Rightarrow> nat \<Rightarrow> string \<Rightarrow> Define \<Rightarrow> Store" where
  "mapSet h r k d =
     (let (a, h1) = newDefine h d in writeMap h1 r ((maps h1 ! r)(k \<mapsto> a)))"

text \<open>
  \<^verbatim>\<open>
  function cloneConfig(config: CompileConfig): CompileConfig {
    return {
      includes: new Set(config.includes),
      defines: new Map(config.defines),
      forcedIncludes: new Set(config.forcedIncludes),
      intelliSenseMode: config.intelliSenseMode,
      standard: config.standard,
    };
  }
  \<close>
\<close>

definition cloneConfig :: "Store \<Rightarrow> ConfigR \<Rightarrow> ConfigR \<times> Store" where
  "cloneConfig h config =
     (let (i, h1) = newSet h (sets h ! includes config);
          (d, h2) = newMap h1 (maps h1 ! defines config);
          (f, h3) = newSet h2 (sets h2 ! forcedIncludes config)
      in (\<lparr>includes = i, defines = d, forcedIncludes = f,
           intelliSenseMode = intelliSenseMode config, standard = standard config\<rparr>, h3))"

text \<open>\<^verbatim>\<open>public getDefaultConfiguration(): CompileConfig { return cloneConfig(this.defaults); }\<close>\<close>

definition getDefaultConfiguration ::
  "Store \<Rightarrow> ('p, ConfigR) Compiler \<Rightarrow> ConfigR \<times> Store" where
  "getDefaultConfiguration h this = cloneConfig h (this_defaults this)"

text \<open>
  What a configuration reads as in a store: the elements of its sets, and for each key
  of its map the fields of the \<open>Define\<close> object the entry refers to. Its references are
  live when each of them is the address of an allocated object.
\<close>

definition readConfig :: "Store \<Rightarrow> ConfigR \<Rightarrow> ConfigV" where
  "readConfig h config =
     \<lparr>includes = sets h ! includes config,
      defines = (\<lambda>k. map_option (\<lambda>a. objs h ! a) ((maps h ! defines config) k)),
      forcedIncludes = sets h ! forcedIncludes config,
      intelliSenseMode = intelliSenseMode config, standard = standard config\<rparr>"

definition liveConfig :: "Store \<Rightarrow> ConfigR \<Rightarrow> bool" where
  "liveConfig h config =
     (includes config < length (sets h) \<and> defines config < length (maps h)
      \<and> forcedIncludes config < length (sets h)
      \<and> (\<forall>a \<in> ran (maps h ! defines config). a < length (objs h)))"

section \<open>Facts about the string primitives\<close>

lemma indexOf_absent: "s \<notin> set tx \<Longrightarrow> indexOf tx [s] = - 1"
  by (induction tx) (auto simp: Let_def)

lemma indexOf_nonneg_or_minus1: "indexOf tx t = - 1 \<or> 0 \<le> indexOf tx t"
  by (induction tx) (auto simp: Let_def)

lemma indexOf_first: "s \<notin> set k \<Longrightarrow> indexOf (k @ s # v) [s] = int (length k)"
proof (induction k)
  case Nil
  show ?case by simp
next
  case (Cons c k)
  then have "c \<noteq> s" and "indexOf (k @ s # v) [s] = int (length k)"
    by auto
  then show ?case by (simp add: Let_def)
qed

lemma takeWhile_first: "s \<notin> set k \<Longrightarrow> takeWhile (\<lambda>c. c \<noteq> s) (k @ s # v) = k"
  by (induction k) auto

lemma dropWhile_first: "s \<notin> set k \<Longrightarrow> dropWhile (\<lambda>c. c \<noteq> s) (k @ s # v) = s # v"
  by (induction k) auto

lemma buildDefine_split:
  assumes "s \<notin> set k"
  shows "buildDefine (k @ s # v) [s] = \<lparr>key = k, value = v\<rparr>"
  using indexOf_first [OF assms, of v]
  by (simp add: buildDefine_def substring_def substringFrom_def)

lemma buildDefine_default:
  assumes "s \<notin> set tx"
  shows "buildDefine tx [s] = \<lparr>key = tx, value = ''1''\<rparr>"
  using indexOf_absent [OF assms] by (simp add: buildDefine_def)

section \<open>Facts about the override parser\<close>

lemma extend_id: "extendConfig c {} Map.empty {} = c"
  by (simp add: extendConfig_def)

lemma extend_extend:
  "extendConfig (extendConfig c I D F) I' D' F' = extendConfig c (I \<union> I') (D ++ D') (F \<union> F')"
  by (simp add: extendConfig_def Un_assoc)

lemma insert_include_extends:
  "c\<lparr>includes := insert x (includes c)\<rparr> = extendConfig c {x} Map.empty {}"
  by (simp add: extendConfig_def)

lemma update_define_extends:
  "c\<lparr>defines := (defines c)(k \<mapsto> d)\<rparr> = extendConfig c {} [k \<mapsto> d] {}"
  by (simp add: extendConfig_def)

lemma insert_forced_extends:
  "c\<lparr>forcedIncludes := insert x (forcedIncludes c)\<rparr> = extendConfig c {} Map.empty {x}"
  by (simp add: extendConfig_def)

lemma argsLoop_extend: "\<exists>I D F. \<forall>c. argsLoop f ts c = extendConfig c I D F"
proof (induction ts rule: length_induct)
  case (1 ts)
  show ?case
  proof (cases ts)
    case Nil
    then show ?thesis using extend_id by (intro exI [of _ "{}"] exI [of _ Map.empty]) simp
  next
    case (Cons a as)
    from 1 Cons obtain I D F where as: "\<And>c. argsLoop f as c = extendConfig c I D F"
      by (metis length_Cons lessI)
    have stop: "(\<forall>c. argsLoop f ts c = c) \<Longrightarrow> ?thesis"
      using extend_id by metis
    have step: "(\<forall>c. argsLoop f ts c = argsLoop f as (extendConfig c I' D' F')) \<Longrightarrow> ?thesis" for I' D' F'
      using as extend_extend by metis
    consider (empty) "a = []"
      | (skip) "a \<noteq> []" "length a < 2 \<or> (charAt a 0 \<noteq> ''-'' \<and> charAt a 0 \<noteq> ''/'')"
      | (D) "a \<noteq> []" "\<not> (length a < 2 \<or> (charAt a 0 \<noteq> ''-'' \<and> charAt a 0 \<noteq> ''/''))" "charAt a 1 = ''D''"
      | (I) "a \<noteq> []" "\<not> (length a < 2 \<or> (charAt a 0 \<noteq> ''-'' \<and> charAt a 0 \<noteq> ''/''))" "charAt a 1 \<noteq> ''D''" "charAt a 1 = ''I''"
      | (force) "a \<noteq> []" "\<not> (length a < 2 \<or> (charAt a 0 \<noteq> ''-'' \<and> charAt a 0 \<noteq> ''/''))" "charAt a 1 \<noteq> ''D''" "charAt a 1 \<noteq> ''I''" "a = f"
      | (other) "a \<noteq> []" "\<not> (length a < 2 \<or> (charAt a 0 \<noteq> ''-'' \<and> charAt a 0 \<noteq> ''/''))" "charAt a 1 \<noteq> ''D''" "charAt a 1 \<noteq> ''I''" "a \<noteq> f"
      by blast
    then show ?thesis
    proof cases
      case empty
      then show ?thesis using Cons by (intro stop) simp
    next
      case skip
      then show ?thesis using Cons extend_id by (intro step [of "{}" Map.empty "{}"]) auto
    next
      case D
      then show ?thesis using Cons
        by (intro step [of "{}" "[key (buildDefine (substringFrom a 2) ''='') \<mapsto> buildDefine (substringFrom a 2) ''='']" "{}"])
          (auto simp: Let_def update_define_extends)
    next
      case I
      then show ?thesis using Cons
        by (intro step [of "{substringFrom a 2}" Map.empty "{}"]) (auto simp: insert_include_extends)
    next
      case other
      then show ?thesis using Cons extend_id by (intro step [of "{}" Map.empty "{}"]) auto
    next
      case force
      show ?thesis
      proof (cases as)
        case Nil
        then show ?thesis using force \<open>ts = a # as\<close> by (intro stop) auto
      next
        case (Cons p rest)
        from 1 \<open>ts = a # as\<close> Cons obtain I2 D2 F2 where rest: "\<And>c. argsLoop f rest c = extendConfig c I2 D2 F2"
          by (metis length_Cons lessI less_SucI)
        show ?thesis
        proof (cases "p = []")
          case True
          then have "\<forall>c. argsLoop f ts c = extendConfig c I2 D2 F2"
            using force \<open>ts = a # as\<close> Cons rest by auto
          then show ?thesis by blast
        next
          case False
          then have "\<forall>c. argsLoop f ts c = extendConfig (extendConfig c {} Map.empty {p}) I2 D2 F2"
            using force \<open>ts = a # as\<close> Cons rest by (auto simp: insert_forced_extends)
          then show ?thesis unfolding extend_extend by blast
        qed
      qed
    qed
  qed
qed

lemma addArgs_extend:
  "\<exists>I D F. \<forall>c. addCompilerArgumentsToConfig split cmdLine f c = extendConfig c I D F"
proof (cases cmdLine)
  case None
  then have "\<forall>c. addCompilerArgumentsToConfig split cmdLine f c = extendConfig c {} Map.empty {}"
    by (simp add: addCompilerArgumentsToConfig_def extend_id)
  then show ?thesis by blast
next
  case (Some cl)
  show ?thesis
  proof (cases "cl = []")
    case True
    with Some have "\<forall>c. addCompilerArgumentsToConfig split cmdLine f c = extendConfig c {} Map.empty {}"
      by (simp add: addCompilerArgumentsToConfig_def extend_id)
    then show ?thesis by blast
  next
    case False
    with Some show ?thesis
      using argsLoop_extend [of f "split cl"] by (simp add: addCompilerArgumentsToConfig_def)
  qed
qed

lemma extend_twice: "extendConfig (extendConfig c I D F) I D F = extendConfig c I D F"
proof -
  have "D ++ D = D" by (rule ext) (simp add: map_add_def split: option.split)
  then show ?thesis by (simp add: extend_extend)
qed

lemma extend_fields:
  "includes (extendConfig c I D F) = includes c \<union> I"
  "defines (extendConfig c I D F) = defines c ++ D"
  "forcedIncludes (extendConfig c I D F) = forcedIncludes c \<union> F"
  "intelliSenseMode (extendConfig c I D F) = intelliSenseMode c"
  "standard (extendConfig c I D F) = standard c"
  by (simp_all add: extendConfig_def)

lemma argsLoop_agrees: "[] \<notin> set ts \<Longrightarrow> \<forall>c. argsLoop f ts c = overrides_spec f ts c"
proof (induction ts rule: length_induct)
  case (1 ts)
  show ?case
  proof (cases ts)
    case Nil
    then show ?thesis by simp
  next
    case (Cons a as)
    with "1.prems" have ne: "a \<noteq> []" and nas: "[] \<notin> set as" by auto
    from 1 Cons nas have as: "\<And>c. argsLoop f as c = overrides_spec f as c"
      by simp
    have c0: "charAt a 0 = [hd a]" using ne by (cases a) (simp_all add: charAt_def)
    show ?thesis
    proof (cases "length a < 2 \<or> (hd a \<noteq> CHR ''-'' \<and> hd a \<noteq> CHR ''/'')")
      case True
      then have "classify f a = NotAFlag" by (simp add: classify_def)
      moreover from True c0 ne have "\<And>c. argsLoop f (a # as) c = argsLoop f as c" by auto
      ultimately show ?thesis using Cons as by simp
    next
      case False
      then have c1: "charAt a 1 = [a ! 1]" by (simp add: charAt_def)
      from False c0 have flag: "\<not> (length a < 2 \<or> (charAt a 0 \<noteq> ''-'' \<and> charAt a 0 \<noteq> ''/''))"
        by simp
      consider (D) "a ! 1 = CHR ''D''"
        | (I) "a ! 1 \<noteq> CHR ''D''" "a ! 1 = CHR ''I''"
        | (force) "a ! 1 \<noteq> CHR ''D''" "a ! 1 \<noteq> CHR ''I''" "a = f"
        | (other) "a ! 1 \<noteq> CHR ''D''" "a ! 1 \<noteq> CHR ''I''" "a \<noteq> f"
        by blast
      then show ?thesis
      proof cases
        case D
        with False have "classify f a = DefineFlag (drop 2 a)" by (simp add: classify_def)
        moreover from D flag c1 ne have "\<And>c. argsLoop f (a # as) c =
            argsLoop f as (c\<lparr>defines := (defines c)(key (buildDefine (drop 2 a) ''='') \<mapsto> buildDefine (drop 2 a) ''='')\<rparr>)"
          by (auto simp: Let_def substringFrom_def)
        ultimately show ?thesis using Cons as by simp
      next
        case I
        with False have "classify f a = IncludeFlag (drop 2 a)" by (simp add: classify_def)
        moreover from I flag c1 ne have "\<And>c. argsLoop f (a # as) c =
            argsLoop f as (c\<lparr>includes := insert (drop 2 a) (includes c)\<rparr>)"
          by (auto simp: Let_def substringFrom_def)
        ultimately show ?thesis using Cons as by simp
      next
        case other
        with False have "classify f a = OtherFlag" by (simp add: classify_def)
        moreover from other flag c1 ne have "\<And>c. argsLoop f (a # as) c = argsLoop f as c"
          by auto
        ultimately show ?thesis using Cons as by simp
      next
        case force
        with False have cl: "classify f a = ForcedIncludeFlag" by (simp add: classify_def)
        show ?thesis
        proof (cases as)
          case Nil
          from force flag c1 ne have "\<And>c. argsLoop f [a] c = c" by auto
          with cl Nil \<open>ts = a # as\<close> show ?thesis by simp
        next
          case (Cons p rest)
          with nas have p: "p \<noteq> []" and nrest: "[] \<notin> set rest" by auto
          from 1 \<open>ts = a # as\<close> Cons nrest
          have rest: "\<And>c. argsLoop f rest c = overrides_spec f rest c" by simp
          from force flag c1 ne p have "\<And>c. argsLoop f (a # p # rest) c =
              argsLoop f rest (c\<lparr>forcedIncludes := insert p (forcedIncludes c)\<rparr>)"
            by auto
          with cl Cons \<open>ts = a # as\<close> rest show ?thesis by simp
        qed
      qed
    qed
  qed
qed

lemma argsLoop_head_step:
  assumes "a \<noteq> []"
    and "length a < 2 \<or> (charAt a 0 \<noteq> ''-'' \<and> charAt a 0 \<noteq> ''/'')
         \<or> charAt a 1 = ''D'' \<or> charAt a 1 = ''I'' \<or> a \<noteq> f"
  shows "\<exists>g. \<forall>as c. argsLoop f (a # as) c = argsLoop f as (g c)"
proof -
  let ?d = "buildDefine (substringFrom a 2) ''=''"
  let ?gD = "\<lambda>c::ConfigV. c\<lparr>defines := (defines c)(key ?d \<mapsto> ?d)\<rparr>"
  let ?gI = "\<lambda>c::ConfigV. c\<lparr>includes := insert (substringFrom a 2) (includes c)\<rparr>"
  consider (skip) "length a < 2 \<or> (charAt a 0 \<noteq> ''-'' \<and> charAt a 0 \<noteq> ''/'')"
    | (D) "\<not> (length a < 2 \<or> (charAt a 0 \<noteq> ''-'' \<and> charAt a 0 \<noteq> ''/''))" "charAt a 1 = ''D''"
    | (I) "\<not> (length a < 2 \<or> (charAt a 0 \<noteq> ''-'' \<and> charAt a 0 \<noteq> ''/''))" "charAt a 1 \<noteq> ''D''"
        "charAt a 1 = ''I''"
    | (other) "\<not> (length a < 2 \<or> (charAt a 0 \<noteq> ''-'' \<and> charAt a 0 \<noteq> ''/''))" "charAt a 1 \<noteq> ''D''"
        "charAt a 1 \<noteq> ''I''" "a \<noteq> f"
    using assms(2) by blast
  then show ?thesis
  proof cases
    case skip
    with assms(1) have "\<forall>as c. argsLoop f (a # as) c = argsLoop f as (id c)" by auto
    then show ?thesis by (rule exI [of _ id])
  next
    case D
    with assms(1) have "\<forall>as c. argsLoop f (a # as) c = argsLoop f as (?gD c)"
      by (auto simp: Let_def)
    then show ?thesis by (rule exI [of _ ?gD])
  next
    case I
    with assms(1) have "\<forall>as c. argsLoop f (a # as) c = argsLoop f as (?gI c)"
      by auto
    then show ?thesis by (rule exI [of _ ?gI])
  next
    case other
    with assms(1) have "\<forall>as c. argsLoop f (a # as) c = argsLoop f as (id c)" by auto
    then show ?thesis by (rule exI [of _ id])
  qed
qed

lemma argsLoop_force_step:
  assumes "f \<noteq> []"
    and "\<not> (length f < 2 \<or> (charAt f 0 \<noteq> ''-'' \<and> charAt f 0 \<noteq> ''/''))"
    and "charAt f 1 \<noteq> ''D''" and "charAt f 1 \<noteq> ''I''"
  shows "argsLoop f (f # p # rest) c =
           argsLoop f rest (if p \<noteq> [] then c\<lparr>forcedIncludes := insert p (forcedIncludes c)\<rparr> else c)"
  using assms by auto

lemma argsLoop_single_forced: "forcedIncludes (argsLoop f [f] c) = forcedIncludes c"
  by (simp add: Let_def)

lemma argsLoop_single_noop:
  "charAt f 1 \<noteq> ''D'' \<Longrightarrow> charAt f 1 \<noteq> ''I'' \<Longrightarrow> argsLoop f [f] c = c"
  by simp

lemma tok_example:
  "splitCmdLine_spec ''-DFOO=bar -Ipath/to/inc -include force.h''
     = [''-DFOO=bar'', ''-Ipath/to/inc'', ''-include'', ''force.h'']"
  by (simp add: splitCmdLine_spec_def)

lemma argsLoop_example:
  "argsLoop ''-include'' [''-DFOO=bar'', ''-Ipath/to/inc'', ''-include'', ''force.h''] config
     = config\<lparr>includes := insert ''path/to/inc'' (includes config),
              defines := (defines config)(''FOO'' \<mapsto> \<lparr>key = ''FOO'', value = ''bar''\<rparr>),
              forcedIncludes := insert ''force.h'' (forcedIncludes config)\<rparr>"
proof -
  have "buildDefine ''FOO=bar'' ''='' = \<lparr>key = ''FOO'', value = ''bar''\<rparr>"
    using buildDefine_split [of "CHR ''=''" "''FOO''" "''bar''"] by simp
  then show ?thesis
    by (simp add: charAt_def substringFrom_def)
qed

lemma awaitsPath_head_step:
  assumes "a \<noteq> []"
    and "length a < 2 \<or> (charAt a 0 \<noteq> ''-'' \<and> charAt a 0 \<noteq> ''/'')
         \<or> charAt a 1 = ''D'' \<or> charAt a 1 = ''I'' \<or> a \<noteq> f"
  shows "awaitsPath f (a # as) = awaitsPath f as"
  using assms by auto

lemma awaitsPath_force_step:
  assumes "f \<noteq> []"
    and "\<not> (length f < 2 \<or> (charAt f 0 \<noteq> ''-'' \<and> charAt f 0 \<noteq> ''/''))"
    and "charAt f 1 \<noteq> ''D''" and "charAt f 1 \<noteq> ''I''"
  shows "awaitsPath f [f]" and "awaitsPath f (f # p # rest) = awaitsPath f rest"
  using assms by auto

lemma argsLoop_force_last:
  assumes "f \<noteq> []"
    and "\<not> (length f < 2 \<or> (charAt f 0 \<noteq> ''-'' \<and> charAt f 0 \<noteq> ''/''))"
    and "charAt f 1 \<noteq> ''D''" and "charAt f 1 \<noteq> ''I''"
  shows "argsLoop f [f] c = c"
    and "argsLoop f [f, f] c = c\<lparr>forcedIncludes := insert f (forcedIncludes c)\<rparr>"
  using assms by auto

lemma dangling_flag:
  "\<not> awaitsPath f ts \<Longrightarrow>
     \<forall>c. argsLoop f (ts @ [f]) c = argsLoop f ts c
        \<or> argsLoop f (ts @ [f]) c = argsLoop f [f] (argsLoop f ts c)"
proof (induction ts rule: length_induct)
  case (1 ts)
  show ?case
  proof (cases ts)
    case Nil
    then show ?thesis by (simp only: append_Nil argsLoop.simps(1)) blast
  next
    case (Cons a as)
    show ?thesis
    proof (cases "a = []")
      case True
      have "\<And>xs c. argsLoop f ([] # xs) c = c" by simp
      with Cons True show ?thesis by (simp only: append_Cons) blast
    next
      case ne: False
      show ?thesis
      proof (cases "length a < 2 \<or> (charAt a 0 \<noteq> ''-'' \<and> charAt a 0 \<noteq> ''/'')
                    \<or> charAt a 1 = ''D'' \<or> charAt a 1 = ''I'' \<or> a \<noteq> f")
        case True
        from argsLoop_head_step [OF ne True]
        obtain g where g: "\<And>as c. argsLoop f (a # as) c = argsLoop f as (g c)" by blast
        from "1.prems" have "\<not> awaitsPath f as"
          unfolding Cons awaitsPath_head_step [OF ne True] .
        moreover have "length as < length ts" using Cons by simp
        ultimately have "\<forall>c. argsLoop f (as @ [f]) c = argsLoop f as c
            \<or> argsLoop f (as @ [f]) c = argsLoop f [f] (argsLoop f as c)"
          using "1.IH" by blast
        then show ?thesis unfolding Cons append_Cons g by blast
      next
        case False
        then have af: "a = f" and flag: "\<not> (length f < 2 \<or> (charAt f 0 \<noteq> ''-'' \<and> charAt f 0 \<noteq> ''/''))"
          and nD: "charAt f 1 \<noteq> ''D''" and nI: "charAt f 1 \<noteq> ''I''"
          by auto
        from ne af have fne: "f \<noteq> []" by simp
        from "1.prems" Cons af awaitsPath_force_step(1) [OF fne flag nD nI]
        obtain p rest where as: "as = p # rest"
          by (cases as) auto
        from "1.prems" have "\<not> awaitsPath f rest"
          unfolding Cons as af awaitsPath_force_step(2) [OF fne flag nD nI] .
        moreover have "length rest < length ts" using Cons as by simp
        ultimately have "\<forall>c. argsLoop f (rest @ [f]) c = argsLoop f rest c
            \<or> argsLoop f (rest @ [f]) c = argsLoop f [f] (argsLoop f rest c)"
          using "1.IH" by blast
        then show ?thesis
          unfolding Cons as af append_Cons argsLoop_force_step [OF fne flag nD nI] by blast
      qed
    qed
  qed
qed

lemma consumed_flag:
  "awaitsPath f ts \<Longrightarrow>
     \<forall>c. argsLoop f (ts @ [f]) c
           = (argsLoop f ts c)\<lparr>forcedIncludes := insert f (forcedIncludes (argsLoop f ts c))\<rparr>"
proof (induction ts rule: length_induct)
  case (1 ts)
  show ?case
  proof (cases ts)
    case Nil
    with "1.prems" show ?thesis by simp
  next
    case (Cons a as)
    show ?thesis
    proof (cases "a = []")
      case True
      with "1.prems" Cons show ?thesis by simp
    next
      case ne: False
      show ?thesis
      proof (cases "length a < 2 \<or> (charAt a 0 \<noteq> ''-'' \<and> charAt a 0 \<noteq> ''/'')
                    \<or> charAt a 1 = ''D'' \<or> charAt a 1 = ''I'' \<or> a \<noteq> f")
        case True
        from argsLoop_head_step [OF ne True]
        obtain g where g: "\<And>as c. argsLoop f (a # as) c = argsLoop f as (g c)" by blast
        from "1.prems" have "awaitsPath f as"
          unfolding Cons awaitsPath_head_step [OF ne True] .
        moreover have "length as < length ts" using Cons by simp
        ultimately have "\<forall>c. argsLoop f (as @ [f]) c
           = (argsLoop f as c)\<lparr>forcedIncludes := insert f (forcedIncludes (argsLoop f as c))\<rparr>"
          using "1.IH" by blast
        then show ?thesis unfolding Cons append_Cons g by blast
      next
        case False
        then have af: "a = f" and flag: "\<not> (length f < 2 \<or> (charAt f 0 \<noteq> ''-'' \<and> charAt f 0 \<noteq> ''/''))"
          and nD: "charAt f 1 \<noteq> ''D''" and nI: "charAt f 1 \<noteq> ''I''"
          by auto
        from ne af have fne: "f \<noteq> []" by simp
        show ?thesis
        proof (cases as)
          case Nil
          with Cons af show ?thesis
            by (simp only: append_Cons append_Nil argsLoop_force_last [OF fne flag nD nI]) blast
        next
          case as: (Cons p rest)
          from "1.prems" have "awaitsPath f rest"
            unfolding Cons as af awaitsPath_force_step(2) [OF fne flag nD nI] .
          moreover have "length rest < length ts" using Cons as by simp
          ultimately have "\<forall>c. argsLoop f (rest @ [f]) c
             = (argsLoop f rest c)\<lparr>forcedIncludes := insert f (forcedIncludes (argsLoop f rest c))\<rparr>"
            using "1.IH" by blast
          then show ?thesis
            unfolding Cons as af append_Cons argsLoop_force_step [OF fne flag nD nI] by blast
        qed
      qed
    qed
  qed
qed

lemma tok_dangling: "splitCmdLine_spec ''-Ia -include'' = [''-Ia''] @ [''-include'']"
  by (simp add: splitCmdLine_spec_def)

lemma tok_flag_three_times:
  "splitCmdLine_spec ''-include -include -include'' = [''-include'', ''-include''] @ [''-include'']"
  by (simp add: splitCmdLine_spec_def)

lemma tok_flag_as_path:
  "splitCmdLine_spec ''-Ia -include -include'' = [''-Ia'', ''-include''] @ [''-include'']"
  by (simp add: splitCmdLine_spec_def)

section \<open>Facts about the probe and the store\<close>

lemma parseLines_foldl:
  "parseLines ls b c =
     snd (foldl (\<lambda>(inIncludes, defaults) line. parseLine line inIncludes defaults) (b, c) ls)"
  by (induction ls arbitrary: b c) (auto split: prod.splits)

lemma charAt0_space: "charAt line 0 = '' '' \<longleftrightarrow> line \<noteq> [] \<and> hd line = CHR '' ''"
  by (cases line) (auto simp: charAt_def)

lemma fixture_lines:
  "splitLines (trim fixture_output) =
     [''#include <...> search starts here:'', '' /usr/include'',
      '' /System/Library/Frameworks (framework directory)'', ''End of search list.'',
      ''#define __VERSION__ '' @ [CHR 0x22, CHR ''1'', CHR 0x22]]"
  by (simp add: fixture_output_def trim_def isWhiteSpace_def)

lemma version_define:
  "buildDefine (''__VERSION__ '' @ [CHR 0x22, CHR ''1'', CHR 0x22]) '' ''
     = \<lparr>key = ''__VERSION__'', value = [CHR 0x22, CHR ''1'', CHR 0x22]\<rparr>"
  using buildDefine_split [of "CHR '' ''" "''__VERSION__''" "[CHR 0x22, CHR ''1'', CHR 0x22]"]
  by simp

lemma parse_fixture:
  "parseCompilerDefaults fixture_output config
     = config\<lparr>includes := insert ''/System/Library/Frameworks''
                              (insert ''/usr/include'' (includes config)),
              defines := (defines config)(''__VERSION__'' \<mapsto>
                            \<lparr>key = ''__VERSION__'', value = [CHR 0x22, CHR ''1'', CHR 0x22]\<rparr>)\<rparr>"
proof -
  have l1: "parseLine ''#include <...> search starts here:'' False c = (True, c)" for c
    by (simp add: parseLine_def parseDirective_def startsWith_def)
  have l2: "parseLine '' /usr/include'' True c
      = (True, c\<lparr>includes := insert ''/usr/include'' (includes c)\<rparr>)" for c
    by (simp add: parseLine_def charAt_def trim_def isWhiteSpace_def endsWith_def
        FRAMEWORK_MARKER_def suffix_to_prefix)
  have l3: "parseLine '' /System/Library/Frameworks (framework directory)'' True c
      = (True, c\<lparr>includes := insert ''/System/Library/Frameworks'' (includes c)\<rparr>)" for c
    by (simp add: parseLine_def charAt_def trim_def isWhiteSpace_def endsWith_def
        FRAMEWORK_MARKER_def suffix_to_prefix substring_def)
  have l4: "parseLine ''End of search list.'' True c = (False, c)" for c
    by (simp add: parseLine_def parseDirective_def charAt_def startsWith_def)
  have t5: "trim (''__VERSION__ '' @ [CHR 0x22, CHR ''1'', CHR 0x22])
      = ''__VERSION__ '' @ [CHR 0x22, CHR ''1'', CHR 0x22]"
    by (simp add: trim_def isWhiteSpace_def)
  have l5: "parseLine (''#define __VERSION__ '' @ [CHR 0x22, CHR ''1'', CHR 0x22]) False c
      = (False, c\<lparr>defines := (defines c)(''__VERSION__'' \<mapsto>
            \<lparr>key = ''__VERSION__'', value = [CHR 0x22, CHR ''1'', CHR 0x22]\<rparr>)\<rparr>)" for c
    using t5 version_define
    by (simp add: parseLine_def parseDirective_def startsWith_def substringFrom_def)
  show ?thesis
    unfolding parseCompilerDefaults_def fixture_lines
    by (simp only: parseLines.simps l1 l2 l3 l4 l5 prod.case) simp
qed

lemma parse_empty_output: "parseCompilerDefaults [] config = config"
  by (simp add: parseCompilerDefaults_def trim_def parseLine_def parseDirective_def
      charAt_def startsWith_def)

lemma cloneConfig_result:
  "cloneConfig h c =
     (\<lparr>includes = length (sets h), defines = length (maps h),
       forcedIncludes = Suc (length (sets h)),
       intelliSenseMode = intelliSenseMode c, standard = standard c\<rparr>,
      \<lparr>sets = sets h @ [sets h ! includes c, (sets h @ [sets h ! includes c]) ! forcedIncludes c],
       maps = maps h @ [maps h ! defines c], objs = objs h\<rparr>)"
  by (simp add: cloneConfig_def newSet_def newMap_def)

lemma read_defines_appended:
  assumes "\<forall>a \<in> ran m. a < length os"
  shows "map_option (\<lambda>a. (os @ [d]) ! a) (m k) = map_option (\<lambda>a. os ! a) (m k)"
proof (cases "m k")
  case None
  then show ?thesis by simp
next
  case (Some a)
  then have "a \<in> ran m" by (auto simp: ran_def)
  with assms have "a < length os" by blast
  with Some show ?thesis by (simp add: nth_append)
qed

lemma example_clone:
  "getDefaultConfiguration
      \<lparr>sets = [{''/usr/include''}, {''pre.h''}], maps = [[''A'' \<mapsto> 0]],
       objs = [\<lparr>key = ''A'', value = ''1''\<rparr>]\<rparr>
      \<lparr>cls = ClangCompiler, this_srcdir = ''/src'', this_command = [''clang''], this_type = CPP,
       this_defaults = \<lparr>includes = 0, defines = 0, forcedIncludes = 1,
                         intelliSenseMode = clang_x64, standard = cpp14\<rparr>\<rparr>
     = (\<lparr>includes = 2, defines = 1, forcedIncludes = 3,
         intelliSenseMode = clang_x64, standard = cpp14\<rparr>,
        \<lparr>sets = [{''/usr/include''}, {''pre.h''}, {''/usr/include''}, {''pre.h''}],
         maps = [[''A'' \<mapsto> 0], [''A'' \<mapsto> 0]],
         objs = [\<lparr>key = ''A'', value = ''1''\<rparr>]\<rparr>)"
  by (simp add: getDefaultConfiguration_def cloneConfig_result)

section \<open>Claims\<close>

text \<open>
  C5. For every text and every one-character splitter, \<open>buildDefine\<close> cuts the text at
  the first occurrence of the splitter: the key is what stands before it, the value what
  stands after it. When the splitter does not occur, the key is the whole text and the
  value is the string "1". So \<open>buildDefine("FOO=1", "=")\<close> and \<open>buildDefine("FOO", "=")\<close>
  both give key "FOO" and value "1".
\<close>

theorem buildDefine_first_occurrence:
  "(s \<in> set tx \<longrightarrow>
      buildDefine tx [s] =
        \<lparr>key = takeWhile (\<lambda>c. c \<noteq> s) tx, value = tl (dropWhile (\<lambda>c. c \<noteq> s) tx)\<rparr>)
   \<and> (s \<notin> set k \<longrightarrow> buildDefine (k @ s # v) [s] = \<lparr>key = k, value = v\<rparr>)
   \<and> (s \<notin> set tx \<longrightarrow> buildDefine tx [s] = \<lparr>key = tx, value = ''1''\<rparr>)
   \<and> buildDefine ''FOO=1'' ''='' = \<lparr>key = ''FOO'', value = ''1''\<rparr>
   \<and> buildDefine ''FOO'' ''='' = \<lparr>key = ''FOO'', value = ''1''\<rparr>"
proof (intro conjI impI)
  assume "s \<in> set tx"
  then obtain k v where tx: "tx = k @ s # v" and k: "s \<notin> set k"
    by (auto dest: split_list_first)
  have "takeWhile (\<lambda>c. c \<noteq> s) tx = k"
    unfolding tx using k by (rule takeWhile_first)
  moreover have "dropWhile (\<lambda>c. c \<noteq> s) tx = s # v"
    unfolding tx using k by (rule dropWhile_first)
  ultimately
  show "buildDefine tx [s] =
      \<lparr>key = takeWhile (\<lambda>c. c \<noteq> s) tx, value = tl (dropWhile (\<lambda>c. c \<noteq> s) tx)\<rparr>"
    using buildDefine_split [OF k, of v] tx by simp
next
  assume "s \<notin> set k"
  then show "buildDefine (k @ s # v) [s] = \<lparr>key = k, value = v\<rparr>"
    by (rule buildDefine_split)
next
  assume "s \<notin> set tx"
  then show "buildDefine tx [s] = \<lparr>key = tx, value = ''1''\<rparr>"
    by (rule buildDefine_default)
next
  show "buildDefine ''FOO=1'' ''='' = \<lparr>key = ''FOO'', value = ''1''\<rparr>"
    using buildDefine_split [of "CHR ''=''" "''FOO''" "''1''"] by simp
next
  show "buildDefine ''FOO'' ''='' = \<lparr>key = ''FOO'', value = ''1''\<rparr>"
    using buildDefine_default [of "CHR ''=''" "''FOO''"] by simp
qed

theorem buildDefine_first_occurrence_witness:
  "buildDefine ''A=b=c'' ''='' = \<lparr>key = ''A'', value = ''b=c''\<rparr>
   \<and> buildDefine ''__GNUC__ 4'' '' '' = \<lparr>key = ''__GNUC__'', value = ''4''\<rparr>
   \<and> buildDefine ''NDEBUG'' ''='' = \<lparr>key = ''NDEBUG'', value = ''1''\<rparr>"
  using buildDefine_first_occurrence [of "CHR ''=''" "''A=b=c''" "''A''" "''b=c''"]
    buildDefine_first_occurrence [of "CHR '' ''" "''__GNUC__ 4''" "''__GNUC__''" "''4''"]
    buildDefine_first_occurrence [of "CHR ''=''" "''NDEBUG''" "''''" "''''"]
  by simp

text \<open>
  C9. A call of \<open>addCompilerArgumentsToConfig\<close> only grows the configuration, whatever
  the command line, the forced-include flag and the tokenizer: every include and every
  forced include of the original is still there, every key of the defines map is still a
  key, and \<open>intelliSenseMode\<close> and \<open>standard\<close> are the original ones.
\<close>

theorem addCompilerArgumentsToConfig_grows:
  "includes config \<subseteq> includes (addCompilerArgumentsToConfig split cmdLine f config)
   \<and> dom (defines config) \<subseteq> dom (defines (addCompilerArgumentsToConfig split cmdLine f config))
   \<and> forcedIncludes config \<subseteq> forcedIncludes (addCompilerArgumentsToConfig split cmdLine f config)
   \<and> intelliSenseMode (addCompilerArgumentsToConfig split cmdLine f config) = intelliSenseMode config
   \<and> standard (addCompilerArgumentsToConfig split cmdLine f config) = standard config"
proof -
  obtain I D F where "addCompilerArgumentsToConfig split cmdLine f config = extendConfig config I D F"
    using addArgs_extend by blast
  then show ?thesis by (simp add: extend_fields)
qed

theorem addCompilerArgumentsToConfig_grows_witness:
  "{''/usr/include''} \<subseteq> includes (addCompilerArgumentsToConfig splitCmdLine_spec
        (Some ''-Isrc -DNDEBUG -include pre.h'') ''-include''
        \<lparr>includes = {''/usr/include''}, defines = [''A'' \<mapsto> \<lparr>key = ''A'', value = ''1''\<rparr>],
         forcedIncludes = {''base.h''}, intelliSenseMode = gcc_x64, standard = c11\<rparr>)
   \<and> dom [''A'' \<mapsto> \<lparr>key = ''A'', value = ''1''\<rparr>] \<subseteq> dom (defines (addCompilerArgumentsToConfig splitCmdLine_spec
        (Some ''-Isrc -DNDEBUG -include pre.h'') ''-include''
        \<lparr>includes = {''/usr/include''}, defines = [''A'' \<mapsto> \<lparr>key = ''A'', value = ''1''\<rparr>],
         forcedIncludes = {''base.h''}, intelliSenseMode = gcc_x64, standard = c11\<rparr>))
   \<and> {''base.h''} \<subseteq> forcedIncludes (addCompilerArgumentsToConfig splitCmdLine_spec
        (Some ''-Isrc -DNDEBUG -include pre.h'') ''-include''
        \<lparr>includes = {''/usr/include''}, defines = [''A'' \<mapsto> \<lparr>key = ''A'', value = ''1''\<rparr>],
         forcedIncludes = {''base.h''}, intelliSenseMode = gcc_x64, standard = c11\<rparr>)
   \<and> intelliSenseMode (addCompilerArgumentsToConfig splitCmdLine_spec
        (Some ''-Isrc -DNDEBUG -include pre.h'') ''-include''
        \<lparr>includes = {''/usr/include''}, defines = [''A'' \<mapsto> \<lparr>key = ''A'', value = ''1''\<rparr>],
         forcedIncludes = {''base.h''}, intelliSenseMode = gcc_x64, standard = c11\<rparr>) = gcc_x64
   \<and> standard (addCompilerArgumentsToConfig splitCmdLine_spec
        (Some ''-Isrc -DNDEBUG -include pre.h'') ''-include''
        \<lparr>includes = {''/usr/include''}, defines = [''A'' \<mapsto> \<lparr>key = ''A'', value = ''1''\<rparr>],
         forcedIncludes = {''base.h''}, intelliSenseMode = gcc_x64, standard = c11\<rparr>) = c11"
  using addCompilerArgumentsToConfig_grows [of
      "\<lparr>includes = {''/usr/include''}, defines = [''A'' \<mapsto> \<lparr>key = ''A'', value = ''1''\<rparr>],
        forcedIncludes = {''base.h''}, intelliSenseMode = gcc_x64, standard = c11\<rparr>"
      splitCmdLine_spec "Some ''-Isrc -DNDEBUG -include pre.h''" "''-include''"]
  by (simp only: CompileConfig.simps)

text \<open>
  C10. \<open>addCompilerArgumentsToConfig\<close> is idempotent: a second call with the same
  command line and the same forced-include flag leaves the configuration as the first
  call made it.
\<close>

theorem addCompilerArgumentsToConfig_idempotent:
  "addCompilerArgumentsToConfig split cmdLine f (addCompilerArgumentsToConfig split cmdLine f config)
     = addCompilerArgumentsToConfig split cmdLine f config"
proof -
  obtain I D F where "\<forall>c. addCompilerArgumentsToConfig split cmdLine f c = extendConfig c I D F"
    using addArgs_extend by blast
  then show ?thesis by (simp add: extend_twice)
qed

theorem addCompilerArgumentsToConfig_idempotent_witness:
  "addCompilerArgumentsToConfig splitCmdLine_spec (Some ''-DX=1 -DX=2 -Ia'') ''-FI''
     (addCompilerArgumentsToConfig splitCmdLine_spec (Some ''-DX=1 -DX=2 -Ia'') ''-FI''
        \<lparr>includes = {}, defines = Map.empty, forcedIncludes = {},
         intelliSenseMode = msvc_x64, standard = cpp14\<rparr>)
   = addCompilerArgumentsToConfig splitCmdLine_spec (Some ''-DX=1 -DX=2 -Ia'') ''-FI''
        \<lparr>includes = {}, defines = Map.empty, forcedIncludes = {},
         intelliSenseMode = msvc_x64, standard = cpp14\<rparr>"
  by (rule addCompilerArgumentsToConfig_idempotent)

text \<open>
  C2, at a command line with an empty token. Section 4.3 has every token shorter than two
  characters passed over and the tokens after it processed. The loop condition of the
  code is the token itself, so an empty token ends the loop. With the tokenizer of
  section 4.1, the command line \<open>-DA "" -DB\<close> has the tokens \<open>-DA\<close>, the empty token and
  \<open>-DB\<close>: the code returns a configuration that defines \<open>A\<close> only, where the description
  defines \<open>A\<close> and \<open>B\<close>.
\<close>

theorem override_parser_stops_at_empty_token:
  "splitCmdLine_spec (''-DA '' @ [CHR 0x22, CHR 0x22] @ '' -DB'') = [''-DA'', [], ''-DB'']
   \<and> addCompilerArgumentsToConfig splitCmdLine_spec
         (Some (''-DA '' @ [CHR 0x22, CHR 0x22] @ '' -DB'')) ''-include''
         \<lparr>includes = {}, defines = Map.empty, forcedIncludes = {},
          intelliSenseMode = clang_x64, standard = cpp14\<rparr>
       = \<lparr>includes = {}, defines = [''A'' \<mapsto> \<lparr>key = ''A'', value = ''1''\<rparr>],
          forcedIncludes = {}, intelliSenseMode = clang_x64, standard = cpp14\<rparr>
   \<and> overrides_spec ''-include'' [''-DA'', [], ''-DB'']
         \<lparr>includes = {}, defines = Map.empty, forcedIncludes = {},
          intelliSenseMode = clang_x64, standard = cpp14\<rparr>
       = \<lparr>includes = {},
          defines = [''A'' \<mapsto> \<lparr>key = ''A'', value = ''1''\<rparr>,
                     ''B'' \<mapsto> \<lparr>key = ''B'', value = ''1''\<rparr>],
          forcedIncludes = {}, intelliSenseMode = clang_x64, standard = cpp14\<rparr>"
proof -
  have tok: "splitCmdLine_spec (''-DA '' @ [CHR 0x22, CHR 0x22] @ '' -DB'') = [''-DA'', [], ''-DB'']"
    by (simp add: splitCmdLine_spec_def)
  have dA: "buildDefine ''A'' ''='' = \<lparr>key = ''A'', value = ''1''\<rparr>"
    using buildDefine_default [of "CHR ''=''" "''A''"] by simp
  have dB: "buildDefine ''B'' ''='' = \<lparr>key = ''B'', value = ''1''\<rparr>"
    using buildDefine_default [of "CHR ''=''" "''B''"] by simp
  have code: "addCompilerArgumentsToConfig splitCmdLine_spec
         (Some (''-DA '' @ [CHR 0x22, CHR 0x22] @ '' -DB'')) ''-include'' e
       = argsLoop ''-include'' [''-DA'', [], ''-DB''] e" for e
    using tok by (simp add: addCompilerArgumentsToConfig_def)
  show ?thesis
    unfolding code
    by (intro conjI tok) (simp_all add: charAt_def substringFrom_def classify_def dA dB)
qed

text \<open>
  X1. On a non-empty command line whose tokens are all non-empty,
  \<open>addCompilerArgumentsToConfig\<close> does what section 4.3 describes, for every tokenizer,
  forced-include flag and configuration: the tokens are processed left to right; a token
  shorter than two characters or not starting with \<open>-\<close> or \<open>/\<close> is passed over; a flag with
  second character \<open>D\<close> gives a define, built from the rest of the token with \<open>=\<close> as the
  splitter and stored under its key; a flag with second character \<open>I\<close> adds the rest of
  the token to the includes; a token equal to the forced-include flag consumes the next
  token and adds it to the forced includes; every other flag is passed over. When the
  tokenizer splits \<open>-DFOO=bar -Ipath/to/inc -include force.h\<close> at its blanks, the call with
  flag \<open>-include\<close> maps \<open>FOO\<close> to \<open>bar\<close>, adds \<open>path/to/inc\<close> to the includes and \<open>force.h\<close>
  to the forced includes, and changes nothing else.
\<close>

theorem override_parser_on_nonempty_tokens:
  "(cl \<noteq> [] \<longrightarrow> [] \<notin> set (splitCmdLine cl) \<longrightarrow>
      addCompilerArgumentsToConfig splitCmdLine (Some cl) forceIncludeFlag config
        = overrides_spec forceIncludeFlag (splitCmdLine cl) config)
   \<and> (splitCmdLine ''-DFOO=bar -Ipath/to/inc -include force.h''
          = [''-DFOO=bar'', ''-Ipath/to/inc'', ''-include'', ''force.h''] \<longrightarrow>
        addCompilerArgumentsToConfig splitCmdLine
            (Some ''-DFOO=bar -Ipath/to/inc -include force.h'') ''-include'' config
          = config\<lparr>includes := insert ''path/to/inc'' (includes config),
                   defines := (defines config)(''FOO'' \<mapsto> \<lparr>key = ''FOO'', value = ''bar''\<rparr>),
                   forcedIncludes := insert ''force.h'' (forcedIncludes config)\<rparr>)"
proof (intro conjI impI)
  assume "cl \<noteq> []" and "[] \<notin> set (splitCmdLine cl)"
  then show "addCompilerArgumentsToConfig splitCmdLine (Some cl) forceIncludeFlag config
        = overrides_spec forceIncludeFlag (splitCmdLine cl) config"
    using argsLoop_agrees [of "splitCmdLine cl" forceIncludeFlag]
    by (simp add: addCompilerArgumentsToConfig_def)
next
  assume "splitCmdLine ''-DFOO=bar -Ipath/to/inc -include force.h''
          = [''-DFOO=bar'', ''-Ipath/to/inc'', ''-include'', ''force.h'']"
  then show "addCompilerArgumentsToConfig splitCmdLine
            (Some ''-DFOO=bar -Ipath/to/inc -include force.h'') ''-include'' config
          = config\<lparr>includes := insert ''path/to/inc'' (includes config),
                   defines := (defines config)(''FOO'' \<mapsto> \<lparr>key = ''FOO'', value = ''bar''\<rparr>),
                   forcedIncludes := insert ''force.h'' (forcedIncludes config)\<rparr>"
    by (simp only: addCompilerArgumentsToConfig_def option.case argsLoop_example) simp
qed

theorem override_parser_on_nonempty_tokens_witness:
  "splitCmdLine_spec ''-DFOO=bar -Ipath/to/inc -include force.h''
     = [''-DFOO=bar'', ''-Ipath/to/inc'', ''-include'', ''force.h'']
   \<and> addCompilerArgumentsToConfig splitCmdLine_spec
        (Some ''-DFOO=bar -Ipath/to/inc -include force.h'') ''-include''
        \<lparr>includes = {}, defines = Map.empty, forcedIncludes = {},
         intelliSenseMode = clang_x64, standard = cpp14\<rparr>
      = \<lparr>includes = {''path/to/inc''},
         defines = [''FOO'' \<mapsto> \<lparr>key = ''FOO'', value = ''bar''\<rparr>],
         forcedIncludes = {''force.h''},
         intelliSenseMode = clang_x64, standard = cpp14\<rparr>
   \<and> addCompilerArgumentsToConfig splitCmdLine_spec
        (Some ''-DFOO=bar -Ipath/to/inc -include force.h'') ''-include''
        \<lparr>includes = {}, defines = Map.empty, forcedIncludes = {},
         intelliSenseMode = clang_x64, standard = cpp14\<rparr>
      = overrides_spec ''-include'' [''-DFOO=bar'', ''-Ipath/to/inc'', ''-include'', ''force.h'']
         \<lparr>includes = {}, defines = Map.empty, forcedIncludes = {},
          intelliSenseMode = clang_x64, standard = cpp14\<rparr>"
  using override_parser_on_nonempty_tokens [of "''-DFOO=bar -Ipath/to/inc -include force.h''"
      splitCmdLine_spec "''-include''"
      "\<lparr>includes = {}, defines = Map.empty, forcedIncludes = {},
        intelliSenseMode = clang_x64, standard = cpp14\<rparr>"]
    tok_example
  by (simp only: set_simps list.distinct insert_iff empty_iff simp_thms CompileConfig.simps
        CompileConfig.update_convs) metis

text \<open>
  C8 (amended). The last token of a command line is the forced-include flag and nothing
  follows it. When the loop takes that token as a flag, or ends before it, the token
  adds nothing to the forced includes and nothing fails (the function has no failing
  branch at all): the forced includes are those of the tokens before it, and with a flag
  whose second character is neither \<open>D\<close> nor \<open>I\<close>, as \<open>-include\<close> and \<open>-FI\<close>, the whole
  configuration is. When the token before it is a forced-include flag that still awaits
  its path, the last token is that path: the flag's own spelling is added to the forced
  includes, and nothing else changes. When the loop takes the flag with no token left,
  the forced includes stay as they are. An absent or empty command line leaves the
  configuration unchanged.
\<close>

theorem dangling_forced_include_flag:
  "(cl \<noteq> [] \<longrightarrow> splitCmdLine cl = ts @ [f] \<longrightarrow> \<not> awaitsPath f ts \<longrightarrow>
       forcedIncludes (addCompilerArgumentsToConfig splitCmdLine (Some cl) f config)
         = forcedIncludes (argsLoop f ts config)
       \<and> (charAt f 1 \<noteq> ''D'' \<longrightarrow> charAt f 1 \<noteq> ''I'' \<longrightarrow>
            addCompilerArgumentsToConfig splitCmdLine (Some cl) f config = argsLoop f ts config))
   \<and> (cl \<noteq> [] \<longrightarrow> splitCmdLine cl = ts @ [f] \<longrightarrow> awaitsPath f ts \<longrightarrow>
       addCompilerArgumentsToConfig splitCmdLine (Some cl) f config
         = (argsLoop f ts config)
             \<lparr>forcedIncludes := insert f (forcedIncludes (argsLoop f ts config))\<rparr>)
   \<and> forcedIncludes (argsLoop f [f] config) = forcedIncludes config
   \<and> addCompilerArgumentsToConfig splitCmdLine None f config = config
   \<and> addCompilerArgumentsToConfig splitCmdLine (Some []) f config = config"
proof (intro conjI impI)
  assume cl: "cl \<noteq> []" and tok: "splitCmdLine cl = ts @ [f]" and d: "\<not> awaitsPath f ts"
  from cl tok have eq: "addCompilerArgumentsToConfig splitCmdLine (Some cl) f config
      = argsLoop f (ts @ [f]) config"
    by (simp add: addCompilerArgumentsToConfig_def)
  from dangling_flag [OF d]
  have alt: "argsLoop f (ts @ [f]) config = argsLoop f ts config
      \<or> argsLoop f (ts @ [f]) config = argsLoop f [f] (argsLoop f ts config)"
    by blast
  then show "forcedIncludes (addCompilerArgumentsToConfig splitCmdLine (Some cl) f config)
         = forcedIncludes (argsLoop f ts config)"
    unfolding eq using argsLoop_single_forced [of f "argsLoop f ts config"] by metis
  assume "charAt f 1 \<noteq> ''D''" and "charAt f 1 \<noteq> ''I''"
  then have "argsLoop f [f] (argsLoop f ts config) = argsLoop f ts config"
    by (rule argsLoop_single_noop)
  with alt show "addCompilerArgumentsToConfig splitCmdLine (Some cl) f config = argsLoop f ts config"
    unfolding eq by metis
next
  assume cl: "cl \<noteq> []" and tok: "splitCmdLine cl = ts @ [f]" and d: "awaitsPath f ts"
  from cl tok have eq: "addCompilerArgumentsToConfig splitCmdLine (Some cl) f config
      = argsLoop f (ts @ [f]) config"
    by (simp add: addCompilerArgumentsToConfig_def)
  from consumed_flag [OF d]
  show "addCompilerArgumentsToConfig splitCmdLine (Some cl) f config
         = (argsLoop f ts config)
             \<lparr>forcedIncludes := insert f (forcedIncludes (argsLoop f ts config))\<rparr>"
    unfolding eq by blast
next
  show "forcedIncludes (argsLoop f [f] config) = forcedIncludes config"
    by (rule argsLoop_single_forced)
next
  show "addCompilerArgumentsToConfig splitCmdLine None f config = config"
    by (simp add: addCompilerArgumentsToConfig_def)
next
  show "addCompilerArgumentsToConfig splitCmdLine (Some []) f config = config"
    by (simp add: addCompilerArgumentsToConfig_def)
qed

theorem dangling_forced_include_flag_witness:
  "addCompilerArgumentsToConfig splitCmdLine_spec (Some ''-Ia -include'') ''-include''
        \<lparr>includes = {}, defines = Map.empty, forcedIncludes = {},
         intelliSenseMode = clang_x64, standard = cpp14\<rparr>
      = \<lparr>includes = {''a''}, defines = Map.empty, forcedIncludes = {},
         intelliSenseMode = clang_x64, standard = cpp14\<rparr>
   \<and> addCompilerArgumentsToConfig splitCmdLine_spec (Some ''-include -include -include'')
        ''-include''
        \<lparr>includes = {}, defines = Map.empty, forcedIncludes = {},
         intelliSenseMode = clang_x64, standard = cpp14\<rparr>
      = \<lparr>includes = {}, defines = Map.empty, forcedIncludes = {''-include''},
         intelliSenseMode = clang_x64, standard = cpp14\<rparr>
   \<and> addCompilerArgumentsToConfig splitCmdLine_spec (Some ''-Ia -include -include'')
        ''-include''
        \<lparr>includes = {}, defines = Map.empty, forcedIncludes = {},
         intelliSenseMode = clang_x64, standard = cpp14\<rparr>
      = \<lparr>includes = {''a''}, defines = Map.empty, forcedIncludes = {''-include''},
         intelliSenseMode = clang_x64, standard = cpp14\<rparr>"
proof -
  let ?e = "\<lparr>includes = {}, defines = Map.empty, forcedIncludes = {},
             intelliSenseMode = clang_x64, standard = cpp14\<rparr> :: ConfigV"
  have nD: "charAt ''-include'' 1 \<noteq> ''D''" and nI: "charAt ''-include'' 1 \<noteq> ''I''"
    by (simp_all add: charAt_def)
  have ne1: "''-Ia -include'' \<noteq> []" and ne2: "''-include -include -include'' \<noteq> []"
    and ne3: "''-Ia -include -include'' \<noteq> []"
    by simp_all
  have a1: "\<not> awaitsPath ''-include'' [''-Ia'']"
    and a2: "\<not> awaitsPath ''-include'' [''-include'', ''-include'']"
    and a3: "awaitsPath ''-include'' [''-Ia'', ''-include'']"
    by (simp_all add: charAt_def)
  have b1: "argsLoop ''-include'' [''-Ia''] ?e = ?e\<lparr>includes := {''a''}\<rparr>"
    and b2: "argsLoop ''-include'' [''-include'', ''-include''] ?e
        = ?e\<lparr>forcedIncludes := {''-include''}\<rparr>"
    and b3: "argsLoop ''-include'' [''-Ia'', ''-include''] ?e = ?e\<lparr>includes := {''a''}\<rparr>"
    by (simp_all add: charAt_def substringFrom_def)
  from dangling_forced_include_flag [of "''-Ia -include''" splitCmdLine_spec "[''-Ia'']"
      "''-include''" ?e] ne1 tok_dangling a1 nD nI
  have 1: "addCompilerArgumentsToConfig splitCmdLine_spec (Some ''-Ia -include'') ''-include'' ?e
      = argsLoop ''-include'' [''-Ia''] ?e"
    by blast
  from dangling_forced_include_flag [of "''-include -include -include''" splitCmdLine_spec
      "[''-include'', ''-include'']" "''-include''" ?e] ne2 tok_flag_three_times a2 nD nI
  have 2: "addCompilerArgumentsToConfig splitCmdLine_spec (Some ''-include -include -include'')
      ''-include'' ?e = argsLoop ''-include'' [''-include'', ''-include''] ?e"
    by blast
  from dangling_forced_include_flag [of "''-Ia -include -include''" splitCmdLine_spec
      "[''-Ia'', ''-include'']" "''-include''" ?e] ne3 tok_flag_as_path a3
  have 3: "addCompilerArgumentsToConfig splitCmdLine_spec (Some ''-Ia -include -include'')
      ''-include'' ?e
      = (argsLoop ''-include'' [''-Ia'', ''-include''] ?e)
          \<lparr>forcedIncludes := insert ''-include''
             (forcedIncludes (argsLoop ''-include'' [''-Ia'', ''-include''] ?e))\<rparr>"
    by blast
  show ?thesis
    unfolding 1 2 3 b1 b2 b3 by simp
qed

text \<open>
  C8 as stated fails when the token before the last one is a forced-include flag that
  takes it as its path. On \<open>-Ia -include -include\<close> the last token is the flag and
  nothing follows it, and the call adds \<open>-include\<close> to the forced includes.
\<close>

theorem last_flag_taken_as_path:
  "splitCmdLine_spec ''-Ia -include -include'' = [''-Ia'', ''-include'', ''-include'']
   \<and> last (splitCmdLine_spec ''-Ia -include -include'') = ''-include''
   \<and> forcedIncludes (addCompilerArgumentsToConfig splitCmdLine_spec
         (Some ''-Ia -include -include'') ''-include''
         \<lparr>includes = {}, defines = Map.empty, forcedIncludes = {},
          intelliSenseMode = clang_x64, standard = cpp14\<rparr>) = {''-include''}"
proof -
  have tok: "splitCmdLine_spec ''-Ia -include -include'' = [''-Ia'', ''-include'', ''-include'']"
    by (simp add: splitCmdLine_spec_def)
  have code: "addCompilerArgumentsToConfig splitCmdLine_spec
         (Some ''-Ia -include -include'') ''-include'' e
       = argsLoop ''-include'' [''-Ia'', ''-include'', ''-include''] e" for e
    using tok by (simp add: addCompilerArgumentsToConfig_def)
  show ?thesis
    unfolding code tok by (simp add: charAt_def substringFrom_def)
qed

text \<open>
  C3. \<open>MsvcCompiler.fetch\<close> builds a configuration with empty containers and then tests
  these containers for emptiness, so it throws for every source root, command, language
  kind and family variant, and never returns a compiler object.
\<close>

theorem MsvcCompiler_fetch_always_fails:
  "MsvcCompiler_fetch srcdir command type compilerType
     = Inl (Error ''Compiler returned empty includes or defined.'')"
  by (simp add: MsvcCompiler_fetch_def Let_def)

theorem MsvcCompiler_fetch_always_fails_witness:
  "MsvcCompiler_fetch ''/src/mozilla'' [''cl.exe''] CPP ''msvc''
     = Inl (Error ''Compiler returned empty includes or defined.'')
   \<and> MsvcCompiler_fetch ''/src/mozilla'' [''clang-cl.exe''] C ''clang-cl''
     = Inl (Error ''Compiler returned empty includes or defined.'')"
  using MsvcCompiler_fetch_always_fails [of "''/src/mozilla''" "[''cl.exe'']" CPP "''msvc''"]
    MsvcCompiler_fetch_always_fails [of "''/src/mozilla''" "[''clang-cl.exe'']" C "''clang-cl''"]
  by (rule conjI)

text \<open>
  C6. \<open>Compiler.create\<close> fails when the build configuration has no \<open>CC_TYPE\<close>; it passes
  \<open>clang\<close> on to \<open>ClangCompiler.fetch\<close>, and \<open>clang-cl\<close> and \<open>msvc\<close> on to \<open>MsvcCompiler.fetch\<close>
  with that identifier; for every other identifier it fails with a message that contains
  the identifier (for a non-empty one, \<open>Unknown compiler type\<close> followed by it and a full
  stop).
\<close>

theorem Compiler_create_dispatch:
  "(config ''CC_TYPE'' = None \<longrightarrow>
      Compiler_create env srcdir command type config
        = Inl (Error ''Unable to determine compiler types.''))
   \<and> (config ''CC_TYPE'' = Some ''clang'' \<longrightarrow>
      Compiler_create env srcdir command type config
        = ClangCompiler_fetch env srcdir command type config)
   \<and> (config ''CC_TYPE'' = Some ''clang-cl'' \<longrightarrow>
      Compiler_create env srcdir command type config
        = MsvcCompiler_fetch srcdir command type ''clang-cl'')
   \<and> (config ''CC_TYPE'' = Some ''msvc'' \<longrightarrow>
      Compiler_create env srcdir command type config
        = MsvcCompiler_fetch srcdir command type ''msvc'')
   \<and> (config ''CC_TYPE'' = Some t \<longrightarrow> t \<noteq> ''clang'' \<longrightarrow> t \<noteq> ''clang-cl'' \<longrightarrow> t \<noteq> ''msvc'' \<longrightarrow>
        (\<exists>msg. Compiler_create env srcdir command type config = Inl (Error msg) \<and> sublist t msg)
        \<and> (t \<noteq> [] \<longrightarrow> Compiler_create env srcdir command type config
              = Inl (Error (''Unknown compiler type '' @ t @ ''.''))))"
proof (intro conjI impI)
  assume "config ''CC_TYPE'' = Some t" "t \<noteq> ''clang''" "t \<noteq> ''clang-cl''" "t \<noteq> ''msvc''"
  then have c: "Compiler_create env srcdir command type config =
      (if t = [] then Inl (Error ''Unable to determine compiler types.'')
       else Inl (Error (''Unknown compiler type '' @ t @ ''.'')))"
    by (simp add: Compiler_create_def)
  show "\<exists>msg. Compiler_create env srcdir command type config = Inl (Error msg) \<and> sublist t msg"
  proof (cases "t = []")
    case True
    with c show ?thesis by simp
  next
    case False
    have "sublist t (''Unknown compiler type '' @ t @ ''.'')"
      by (rule sublist_appendI)
    with c False show ?thesis by simp
  qed
  assume "t \<noteq> []"
  with c show "Compiler_create env srcdir command type config
      = Inl (Error (''Unknown compiler type '' @ t @ ''.''))"
    by simp
qed (simp_all add: Compiler_create_def)

theorem Compiler_create_dispatch_witness:
  "Compiler_create \<lparr>platform = ''linux'', getCompiler = (\<lambda>p t. None), exec = (\<lambda>cmd. Inl (Error ''ENOENT''))\<rparr>
      ''/src'' [''gcc''] CPP [''CC_TYPE'' \<mapsto> ''gcc'']
     = Inl (Error ''Unknown compiler type gcc.'')
   \<and> Compiler_create \<lparr>platform = ''linux'', getCompiler = (\<lambda>p t. None), exec = (\<lambda>cmd. Inl (Error ''ENOENT''))\<rparr>
      ''/src'' [''cl''] CPP [''CC_TYPE'' \<mapsto> ''msvc'']
     = MsvcCompiler_fetch ''/src'' [''cl''] CPP ''msvc''"
  using Compiler_create_dispatch [of "[''CC_TYPE'' \<mapsto> ''gcc'']"
      "\<lparr>platform = ''linux'', getCompiler = (\<lambda>p t. None), exec = (\<lambda>cmd. Inl (Error ''ENOENT''))\<rparr>"
      "''/src''" "[''gcc'']" CPP "''gcc''"]
    Compiler_create_dispatch [of "[''CC_TYPE'' \<mapsto> ''msvc'']"
      "\<lparr>platform = ''linux'', getCompiler = (\<lambda>p t. None), exec = (\<lambda>cmd. Inl (Error ''ENOENT''))\<rparr>"
      "''/src''" "[''cl'']" CPP "''msvc''"]
  by simp

text \<open>
  C1. \<open>parseCompilerDefaults\<close> is a two-state scan over the lines of the trimmed
  output, starting outside the include listing. Inside the listing, a line that begins
  with a space is trimmed and added to the includes, without the suffix
  \<open> (framework directory)\<close> when it has it, and the scan stays inside; a line that does
  not begin with a space is handled as it is outside the listing. Outside the listing, a
  line that starts with \<open>#include \<close> enters the listing; a line that starts with
  \<open>#define \<close> loses that prefix, is trimmed and gives a define with a single space as the
  splitter, stored under its key (so a later line for the same key overwrites an earlier
  one); every other line changes nothing. The output of property 4 in section 8 parses
  to the includes \<open>/usr/include\<close> and \<open>/System/Library/Frameworks\<close> and the one define
  \<open>__VERSION__\<close>, whose value is the rest of its line.
\<close>

theorem parseCompilerDefaults_two_state_scan:
  "(line \<noteq> [] \<longrightarrow> hd line = CHR '' '' \<longrightarrow> trim line = path @ FRAMEWORK_MARKER \<longrightarrow>
      parseLine line True config = (True, config\<lparr>includes := insert path (includes config)\<rparr>))
   \<and> (line \<noteq> [] \<longrightarrow> hd line = CHR '' '' \<longrightarrow> \<not> suffix FRAMEWORK_MARKER (trim line) \<longrightarrow>
      parseLine line True config
        = (True, config\<lparr>includes := insert (trim line) (includes config)\<rparr>))
   \<and> ((line = [] \<or> hd line \<noteq> CHR '' '') \<longrightarrow>
      parseLine line True config = parseLine line False config)
   \<and> (prefix ''#include '' line \<longrightarrow> parseLine line False config = (True, config))
   \<and> parseLine (''#define '' @ rest) False config
        = (False, config\<lparr>defines := (defines config)
             (key (buildDefine (trim rest) '' '') \<mapsto> buildDefine (trim rest) '' '')\<rparr>)
   \<and> (\<not> prefix ''#include '' line \<longrightarrow> \<not> prefix ''#define '' line \<longrightarrow>
      parseLine line False config = (False, config))
   \<and> parseCompilerDefaults output config
        = snd (foldl (\<lambda>(inIncludes, defaults) line. parseLine line inIncludes defaults)
                (False, config) (splitLines (trim output)))
   \<and> parseCompilerDefaults fixture_output
        \<lparr>includes = {}, defines = Map.empty, forcedIncludes = {},
         intelliSenseMode = mode, standard = std\<rparr>
        = \<lparr>includes = {''/usr/include'', ''/System/Library/Frameworks''},
           defines = [''__VERSION__'' \<mapsto>
                        \<lparr>key = ''__VERSION__'', value = [CHR 0x22, CHR ''1'', CHR 0x22]\<rparr>],
           forcedIncludes = {}, intelliSenseMode = mode, standard = std\<rparr>"
proof (intro conjI impI)
  have "suffix FRAMEWORK_MARKER (path @ FRAMEWORK_MARKER)" by (simp add: suffix_def)
  moreover assume "line \<noteq> []" "hd line = CHR '' ''" "trim line = path @ FRAMEWORK_MARKER"
  ultimately show "parseLine line True config
      = (True, config\<lparr>includes := insert path (includes config)\<rparr>)"
    by (simp add: parseLine_def charAt0_space endsWith_def substring_def Let_def)
next
  assume "line \<noteq> []" "hd line = CHR '' ''" "\<not> suffix FRAMEWORK_MARKER (trim line)"
  then show "parseLine line True config
      = (True, config\<lparr>includes := insert (trim line) (includes config)\<rparr>)"
    by (simp add: parseLine_def charAt0_space endsWith_def Let_def)
next
  assume "line = [] \<or> hd line \<noteq> CHR '' ''"
  then show "parseLine line True config = parseLine line False config"
    by (auto simp: parseLine_def charAt0_space)
next
  assume "prefix ''#include '' line"
  then show "parseLine line False config = (True, config)"
    by (simp add: parseLine_def parseDirective_def startsWith_def)
next
  have "\<not> prefix ''#include '' (''#define '' @ rest)" by simp
  then show "parseLine (''#define '' @ rest) False config
        = (False, config\<lparr>defines := (defines config)
             (key (buildDefine (trim rest) '' '') \<mapsto> buildDefine (trim rest) '' '')\<rparr>)"
    by (simp add: parseLine_def parseDirective_def startsWith_def substringFrom_def Let_def)
next
  assume "\<not> prefix ''#include '' line" "\<not> prefix ''#define '' line"
  then show "parseLine line False config = (False, config)"
    by (simp add: parseLine_def parseDirective_def startsWith_def)
next
  show "parseCompilerDefaults output config
        = snd (foldl (\<lambda>(inIncludes, defaults) line. parseLine line inIncludes defaults)
                (False, config) (splitLines (trim output)))"
    by (simp add: parseCompilerDefaults_def parseLines_foldl)
next
  show "parseCompilerDefaults fixture_output
        \<lparr>includes = {}, defines = Map.empty, forcedIncludes = {},
         intelliSenseMode = mode, standard = std\<rparr>
        = \<lparr>includes = {''/usr/include'', ''/System/Library/Frameworks''},
           defines = [''__VERSION__'' \<mapsto>
                        \<lparr>key = ''__VERSION__'', value = [CHR 0x22, CHR ''1'', CHR 0x22]\<rparr>],
           forcedIncludes = {}, intelliSenseMode = mode, standard = std\<rparr>"
    by (simp add: parse_fixture insert_commute)
qed


theorem parseCompilerDefaults_two_state_scan_witness:
  "parseLine '' /Library/Frameworks (framework directory)'' True
       \<lparr>includes = {}, defines = Map.empty, forcedIncludes = {},
        intelliSenseMode = clang_x64, standard = cpp14\<rparr>
     = (True, \<lparr>includes = {''/Library/Frameworks''}, defines = Map.empty, forcedIncludes = {},
               intelliSenseMode = clang_x64, standard = cpp14\<rparr>)
   \<and> parseLine ''End of search list.'' True
       \<lparr>includes = {}, defines = Map.empty, forcedIncludes = {},
        intelliSenseMode = clang_x64, standard = cpp14\<rparr>
     = (False, \<lparr>includes = {}, defines = Map.empty, forcedIncludes = {},
                intelliSenseMode = clang_x64, standard = cpp14\<rparr>)
   \<and> parseLine ''#define __GNUC__ 4'' False
       \<lparr>includes = {}, defines = Map.empty, forcedIncludes = {},
        intelliSenseMode = clang_x64, standard = cpp14\<rparr>
     = (False, \<lparr>includes = {}, defines = [''__GNUC__'' \<mapsto> \<lparr>key = ''__GNUC__'', value = ''4''\<rparr>],
                forcedIncludes = {}, intelliSenseMode = clang_x64, standard = cpp14\<rparr>)"
proof -
  let ?e = "\<lparr>includes = {}, defines = Map.empty, forcedIncludes = {},
             intelliSenseMode = clang_x64, standard = cpp14\<rparr> :: ConfigV"
  let ?l = "'' /Library/Frameworks (framework directory)''"
  let ?m = "''End of search list.''"
  have t: "trim ?l = ''/Library/Frameworks'' @ FRAMEWORK_MARKER"
    by (simp add: trim_def isWhiteSpace_def FRAMEWORK_MARKER_def)
  have g: "buildDefine (trim ''__GNUC__ 4'') '' '' = \<lparr>key = ''__GNUC__'', value = ''4''\<rparr>"
    using buildDefine_split [of "CHR '' ''" "''__GNUC__''" "''4''"]
    by (simp add: trim_def isWhiteSpace_def)
  from parseCompilerDefaults_two_state_scan [of ?l "''/Library/Frameworks''" ?e "''__GNUC__ 4''" "[]"] t
  have 1: "parseLine ?l True ?e = (True, ?e\<lparr>includes := insert ''/Library/Frameworks'' (includes ?e)\<rparr>)"
    and 3: "parseLine (''#define '' @ ''__GNUC__ 4'') False ?e
        = (False, ?e\<lparr>defines := (defines ?e)(key (buildDefine (trim ''__GNUC__ 4'') '' '')
              \<mapsto> buildDefine (trim ''__GNUC__ 4'') '' '')\<rparr>)"
    by simp_all
  from parseCompilerDefaults_two_state_scan [of ?m "[]" ?e "[]" "[]"]
  have "parseLine ?m True ?e = parseLine ?m False ?e" and "parseLine ?m False ?e = (False, ?e)"
    by simp_all
  then have 2: "parseLine ?m True ?e = (False, ?e)" by simp
  from 1 2 3 g show ?thesis by simp
qed

text \<open>
  C4. \<open>ClangCompiler.fetch\<close> never returns a compiler object whose defaults have an empty
  includes set or an empty defines map: when the process has run and both streams have
  been parsed, an empty includes set or an empty defines map makes it fail with the
  error \<open>Compiler returned empty includes or defined.\<close>; otherwise it returns the object
  with the parsed defaults.
\<close>

theorem ClangCompiler_fetch_rejects_empty_result:
  "(ClangCompiler_fetch env srcdir command type buildConfig = Inr compiler \<longrightarrow>
      includes (this_defaults compiler) \<noteq> {} \<and> defines (this_defaults compiler) \<noteq> Map.empty)
   \<and> (exec env (probeCommand env srcdir command type buildConfig) = Inr result \<longrightarrow>
       parsed = parseCompilerDefaults (stderr result)
                  (parseCompilerDefaults (stdout result)
                     \<lparr>includes = {}, defines = Map.empty, forcedIncludes = {},
                      intelliSenseMode = clang_x64,
                      standard = (if type = C then C_STANDARD else CPP_STANDARD)\<rparr>) \<longrightarrow>
       (includes parsed = {} \<or> defines parsed = Map.empty \<longrightarrow>
          ClangCompiler_fetch env srcdir command type buildConfig
            = Inl (Error ''Compiler returned empty includes or defined.''))
       \<and> (includes parsed \<noteq> {} \<and> defines parsed \<noteq> Map.empty \<longrightarrow>
          ClangCompiler_fetch env srcdir command type buildConfig
            = Inr \<lparr>cls = ClangCompiler, this_srcdir = srcdir, this_command = command,
                   this_type = type, this_defaults = parsed\<rparr>))"
  by (auto simp: ClangCompiler_fetch_def Let_def split: sum.splits if_splits)

theorem ClangCompiler_fetch_rejects_empty_result_witness:
  "ClangCompiler_fetch
      \<lparr>platform = ''linux'', getCompiler = (\<lambda>p t. None),
       exec = (\<lambda>cmd. Inr \<lparr>stdout = [], stderr = []\<rparr>)\<rparr>
      ''/src'' [''clang''] CPP Map.empty
     = Inl (Error ''Compiler returned empty includes or defined.'')
   \<and> ClangCompiler_fetch
      \<lparr>platform = ''linux'', getCompiler = (\<lambda>p t. None),
       exec = (\<lambda>cmd. Inr \<lparr>stdout = [], stderr = fixture_output\<rparr>)\<rparr>
      ''/src'' [''clang''] CPP Map.empty
     = Inr \<lparr>cls = ClangCompiler, this_srcdir = ''/src'', this_command = [''clang''],
            this_type = CPP,
            this_defaults =
              \<lparr>includes = {''/usr/include'', ''/System/Library/Frameworks''},
               defines = [''__VERSION__'' \<mapsto>
                            \<lparr>key = ''__VERSION__'', value = [CHR 0x22, CHR ''1'', CHR 0x22]\<rparr>],
               forcedIncludes = {}, intelliSenseMode = clang_x64, standard = cpp14\<rparr>\<rparr>"
proof -
  let ?e = "\<lparr>includes = {}, defines = Map.empty, forcedIncludes = {},
             intelliSenseMode = clang_x64,
             standard = (if CPP = C then C_STANDARD else CPP_STANDARD)\<rparr> :: ConfigV"
  let ?env1 = "\<lparr>platform = ''linux'', getCompiler = (\<lambda>p t. None),
       exec = (\<lambda>cmd. Inr \<lparr>stdout = [], stderr = []\<rparr>)\<rparr> :: string Env"
  let ?env2 = "\<lparr>platform = ''linux'', getCompiler = (\<lambda>p t. None),
       exec = (\<lambda>cmd. Inr \<lparr>stdout = [], stderr = fixture_output\<rparr>)\<rparr> :: string Env"
  let ?none = "\<lparr>cls = ClangCompiler, this_srcdir = ''/src'', this_command = [''clang''],
                 this_type = CPP, this_defaults = ?e\<rparr>"
  let ?p2 = "\<lparr>includes = {''/usr/include'', ''/System/Library/Frameworks''},
               defines = [''__VERSION__'' \<mapsto>
                            \<lparr>key = ''__VERSION__'', value = [CHR 0x22, CHR ''1'', CHR 0x22]\<rparr>],
               forcedIncludes = {}, intelliSenseMode = clang_x64, standard = cpp14\<rparr> :: ConfigV"
  have p1: "?e = parseCompilerDefaults (stderr \<lparr>stdout = [], stderr = []\<rparr>)
      (parseCompilerDefaults (stdout \<lparr>stdout = [], stderr = []\<rparr>) ?e)"
    by (simp add: parse_empty_output)
  have p2: "?p2 = parseCompilerDefaults (stderr \<lparr>stdout = [], stderr = fixture_output\<rparr>)
      (parseCompilerDefaults (stdout \<lparr>stdout = [], stderr = fixture_output\<rparr>) ?e)"
    by (simp add: parse_empty_output parse_fixture CPP_STANDARD_def insert_commute)
  have x1: "exec ?env1 (probeCommand ?env1 ''/src'' [''clang''] CPP Map.empty)
      = Inr \<lparr>stdout = [], stderr = []\<rparr>" by simp
  have x2: "exec ?env2 (probeCommand ?env2 ''/src'' [''clang''] CPP Map.empty)
      = Inr \<lparr>stdout = [], stderr = fixture_output\<rparr>" by simp
  have e1: "includes ?e = {} \<or> defines ?e = Map.empty" by simp
  from ClangCompiler_fetch_rejects_empty_result [of ?env1 "''/src''" "[''clang'']" CPP Map.empty
      ?none "\<lparr>stdout = [], stderr = []\<rparr>" ?e] x1 p1 e1
  have a: "ClangCompiler_fetch ?env1 ''/src'' [''clang''] CPP Map.empty
     = Inl (Error ''Compiler returned empty includes or defined.'')"
    by blast
  have ne: "includes ?p2 \<noteq> {} \<and> defines ?p2 \<noteq> Map.empty" by simp
  from ClangCompiler_fetch_rejects_empty_result [of ?env2 "''/src''" "[''clang'']" CPP Map.empty
      ?none "\<lparr>stdout = [], stderr = fixture_output\<rparr>" ?p2] x2 p2 ne
  have b: "ClangCompiler_fetch ?env2 ''/src'' [''clang''] CPP Map.empty
     = Inr \<lparr>cls = ClangCompiler, this_srcdir = ''/src'', this_command = [''clang''],
            this_type = CPP, this_defaults = ?p2\<rparr>"
    by blast
  from a b show ?thesis by (rule conjI)
qed

text \<open>
  C7 (amended). \<open>getDefaultConfiguration\<close> returns a clone with containers of its own;
  the \<open>Define\<close> objects in the defines map are not copied, the clone's map refers to the
  same objects as the map of the defaults. The clone reads as the defaults do. Whatever
  is then written to the clone's includes set, to the entries of its defines map (also a
  new \<open>Define\<close> stored under a key) or to its forced-includes set, the defaults read as
  they did before the call, while the clone reads what was written. A write to a field
  of a \<open>Define\<close> object that the clone's map refers to is read through the defaults as
  well.
\<close>

theorem getDefaultConfiguration_copies_containers:
  "liveConfig h (this_defaults this) \<longrightarrow> getDefaultConfiguration h this = (clone, h') \<longrightarrow>
     readConfig h' clone = readConfig h (this_defaults this)
     \<and> readConfig h' (this_defaults this) = readConfig h (this_defaults this)
     \<and> maps h' ! defines clone = maps h ! defines (this_defaults this)
     \<and> (\<forall>S. readConfig (writeSet h' (includes clone) S) (this_defaults this)
               = readConfig h (this_defaults this)
            \<and> includes (readConfig (writeSet h' (includes clone) S) clone) = S)
     \<and> (\<forall>M. readConfig (writeMap h' (defines clone) M) (this_defaults this)
               = readConfig h (this_defaults this)
            \<and> maps (writeMap h' (defines clone) M) ! defines clone = M)
     \<and> (\<forall>k d. readConfig (mapSet h' (defines clone) k d) (this_defaults this)
               = readConfig h (this_defaults this)
            \<and> defines (readConfig (mapSet h' (defines clone) k d) clone) k = Some d)
     \<and> (\<forall>S. readConfig (writeSet h' (forcedIncludes clone) S) (this_defaults this)
               = readConfig h (this_defaults this)
            \<and> forcedIncludes (readConfig (writeSet h' (forcedIncludes clone) S) clone) = S)
     \<and> (\<forall>k a d. (maps h' ! defines clone) k = Some a \<longrightarrow>
            defines (readConfig (writeDefine h' a d) (this_defaults this)) k = Some d)"
proof (intro impI)
  let ?c = "this_defaults this"
  assume live: "liveConfig h ?c" and call: "getDefaultConfiguration h this = (clone, h')"
  from live have i: "includes ?c < length (sets h)" and d: "defines ?c < length (maps h)"
    and f: "forcedIncludes ?c < length (sets h)"
    and o: "\<forall>a \<in> ran (maps h ! defines ?c). a < length (objs h)"
    by (simp_all add: liveConfig_def)
  from call have clone: "clone = \<lparr>includes = length (sets h), defines = length (maps h),
       forcedIncludes = Suc (length (sets h)),
       intelliSenseMode = intelliSenseMode ?c, standard = standard ?c\<rparr>"
    and h': "h' = \<lparr>sets = sets h @ [sets h ! includes ?c, sets h ! forcedIncludes ?c],
       maps = maps h @ [maps h ! defines ?c], objs = objs h\<rparr>"
    using f by (simp_all add: getDefaultConfiguration_def cloneConfig_result nth_append)
  have same1: "readConfig h' clone = readConfig h ?c"
    unfolding clone h' using i d f by (simp add: readConfig_def nth_append)
  have same2: "readConfig h' ?c = readConfig h ?c"
    unfolding clone h' using i d f by (simp add: readConfig_def nth_append)
  have same3: "maps h' ! defines clone = maps h ! defines ?c"
    unfolding clone h' using d by (simp add: nth_append)
  have wset: "\<forall>S. readConfig (writeSet h' (includes clone) S) ?c = readConfig h ?c
      \<and> includes (readConfig (writeSet h' (includes clone) S) clone) = S"
    unfolding clone h' using i d f
    by (simp add: readConfig_def writeSet_def nth_append nth_list_update list_update_append)
  have wforced: "\<forall>S. readConfig (writeSet h' (forcedIncludes clone) S) ?c = readConfig h ?c
      \<and> forcedIncludes (readConfig (writeSet h' (forcedIncludes clone) S) clone) = S"
    unfolding clone h' using i d f
    by (simp add: readConfig_def writeSet_def nth_append nth_list_update list_update_append)
  have wmap: "\<forall>M. readConfig (writeMap h' (defines clone) M) ?c = readConfig h ?c
      \<and> maps (writeMap h' (defines clone) M) ! defines clone = M"
    unfolding clone h' using i d f
    by (simp add: readConfig_def writeMap_def nth_append nth_list_update list_update_append)
  have mset: "\<forall>k v. readConfig (mapSet h' (defines clone) k v) ?c = readConfig h ?c
      \<and> defines (readConfig (mapSet h' (defines clone) k v) clone) k = Some v"
  proof (intro allI conjI)
    fix k v
    have ms: "mapSet h' (defines clone) k v
        = \<lparr>sets = sets h', maps = (maps h')[defines clone := (maps h' ! defines clone)(k \<mapsto> length (objs h))],
           objs = objs h @ [v]\<rparr>"
      unfolding h' by (simp add: mapSet_def newDefine_def writeMap_def)
    have "defines (readConfig (mapSet h' (defines clone) k v) ?c) = defines (readConfig h ?c)"
      unfolding ms unfolding clone h' using d read_defines_appended [OF o, where d = v]
      by (simp add: readConfig_def nth_append)
    then show "readConfig (mapSet h' (defines clone) k v) ?c = readConfig h ?c"
      unfolding ms unfolding clone h' using i f
      by (simp add: readConfig_def nth_append)
    show "defines (readConfig (mapSet h' (defines clone) k v) clone) k = Some v"
      unfolding ms unfolding clone h' by (simp add: readConfig_def nth_append)
  qed
  have shared: "\<forall>k a v. (maps h' ! defines clone) k = Some a \<longrightarrow>
      defines (readConfig (writeDefine h' a v) ?c) k = Some v"
  proof (intro allI impI)
    fix k a v
    assume "(maps h' ! defines clone) k = Some a"
    with same3 have k: "(maps h ! defines ?c) k = Some a" by simp
    then have "a \<in> ran (maps h ! defines ?c)" by (auto simp: ran_def)
    with o have "a < length (objs h)" by blast
    with k show "defines (readConfig (writeDefine h' a v) ?c) k = Some v"
      unfolding h' using d by (simp add: readConfig_def writeDefine_def nth_append)
  qed
  show "readConfig h' clone = readConfig h ?c
     \<and> readConfig h' ?c = readConfig h ?c
     \<and> maps h' ! defines clone = maps h ! defines ?c
     \<and> (\<forall>S. readConfig (writeSet h' (includes clone) S) ?c = readConfig h ?c
            \<and> includes (readConfig (writeSet h' (includes clone) S) clone) = S)
     \<and> (\<forall>M. readConfig (writeMap h' (defines clone) M) ?c = readConfig h ?c
            \<and> maps (writeMap h' (defines clone) M) ! defines clone = M)
     \<and> (\<forall>k d. readConfig (mapSet h' (defines clone) k d) ?c = readConfig h ?c
            \<and> defines (readConfig (mapSet h' (defines clone) k d) clone) k = Some d)
     \<and> (\<forall>S. readConfig (writeSet h' (forcedIncludes clone) S) ?c = readConfig h ?c
            \<and> forcedIncludes (readConfig (writeSet h' (forcedIncludes clone) S) clone) = S)
     \<and> (\<forall>k a d. (maps h' ! defines clone) k = Some a \<longrightarrow>
            defines (readConfig (writeDefine h' a d) ?c) k = Some d)"
    by (intro conjI) (rule same1 same2 same3 wset wmap mset wforced shared)+
qed

theorem getDefaultConfiguration_copies_containers_witness:
  "includes (readConfig
        (writeSet \<lparr>sets = [{''/usr/include''}, {''pre.h''}, {''/usr/include''}, {''pre.h''}],
                   maps = [[''A'' \<mapsto> 0], [''A'' \<mapsto> 0]],
                   objs = [\<lparr>key = ''A'', value = ''1''\<rparr>]\<rparr>
           2 {''/usr/include'', ''/opt/include''})
        \<lparr>includes = 0, defines = 0, forcedIncludes = 1,
         intelliSenseMode = clang_x64, standard = cpp14\<rparr>) = {''/usr/include''}
   \<and> defines (readConfig
        (mapSet \<lparr>sets = [{''/usr/include''}, {''pre.h''}, {''/usr/include''}, {''pre.h''}],
                 maps = [[''A'' \<mapsto> 0], [''A'' \<mapsto> 0]],
                 objs = [\<lparr>key = ''A'', value = ''1''\<rparr>]\<rparr>
           1 ''A'' \<lparr>key = ''A'', value = ''2''\<rparr>)
        \<lparr>includes = 0, defines = 0, forcedIncludes = 1,
         intelliSenseMode = clang_x64, standard = cpp14\<rparr>) ''A''
      = Some \<lparr>key = ''A'', value = ''1''\<rparr>"
proof -
  let ?h = "\<lparr>sets = [{''/usr/include''}, {''pre.h''}], maps = [[''A'' \<mapsto> 0]],
             objs = [\<lparr>key = ''A'', value = ''1''\<rparr>]\<rparr>"
  let ?d = "\<lparr>includes = 0, defines = 0, forcedIncludes = 1,
             intelliSenseMode = clang_x64, standard = cpp14\<rparr> :: ConfigR"
  let ?comp = "\<lparr>cls = ClangCompiler, this_srcdir = ''/src'', this_command = [''clang''],
                 this_type = CPP, this_defaults = ?d\<rparr>"
  let ?clone = "\<lparr>includes = 2, defines = 1, forcedIncludes = 3,
                 intelliSenseMode = clang_x64, standard = cpp14\<rparr> :: ConfigR"
  let ?h' = "\<lparr>sets = [{''/usr/include''}, {''pre.h''}, {''/usr/include''}, {''pre.h''}],
              maps = [[''A'' \<mapsto> 0], [''A'' \<mapsto> 0]],
              objs = [\<lparr>key = ''A'', value = ''1''\<rparr>]\<rparr>"
  have live: "liveConfig ?h (this_defaults ?comp)" by (simp add: liveConfig_def)
  have call: "getDefaultConfiguration ?h ?comp = (?clone, ?h')" by (rule example_clone)
  have orig: "readConfig ?h ?d
      = \<lparr>includes = {''/usr/include''}, defines = [''A'' \<mapsto> \<lparr>key = ''A'', value = ''1''\<rparr>],
         forcedIncludes = {''pre.h''}, intelliSenseMode = clang_x64, standard = cpp14\<rparr>"
    by (auto simp: readConfig_def)
  note inst = getDefaultConfiguration_copies_containers [of ?h ?comp ?clone ?h',
      rule_format, OF live call]
  from inst have w: "\<forall>S. readConfig (writeSet ?h' (includes ?clone) S) (this_defaults ?comp)
        = readConfig ?h (this_defaults ?comp)
      \<and> includes (readConfig (writeSet ?h' (includes ?clone) S) ?clone) = S"
    by (elim conjE)
  from inst have m: "\<forall>k d. readConfig (mapSet ?h' (defines ?clone) k d) (this_defaults ?comp)
        = readConfig ?h (this_defaults ?comp)
      \<and> defines (readConfig (mapSet ?h' (defines ?clone) k d) ?clone) k = Some d"
    by (elim conjE)
  from w have 1: "readConfig (writeSet ?h' 2 {''/usr/include'', ''/opt/include''}) ?d
      = readConfig ?h ?d"
    by simp
  from m have 2: "readConfig (mapSet ?h' 1 ''A'' \<lparr>key = ''A'', value = ''2''\<rparr>) ?d
      = readConfig ?h ?d"
    by simp
  show ?thesis unfolding 1 2 orig by simp
qed

text \<open>
  C7 as stated fails for a deep clone: the clone's map holds the \<open>Define\<close> object of the
  defaults under \<open>A\<close>, and after a write to the value field of that object the defaults
  read the new value.
\<close>

theorem clone_shares_define_objects:
  "getDefaultConfiguration
      \<lparr>sets = [{''/usr/include''}, {''pre.h''}], maps = [[''A'' \<mapsto> 0]],
       objs = [\<lparr>key = ''A'', value = ''1''\<rparr>]\<rparr>
      \<lparr>cls = ClangCompiler, this_srcdir = ''/src'', this_command = [''clang''], this_type = CPP,
       this_defaults = \<lparr>includes = 0, defines = 0, forcedIncludes = 1,
                         intelliSenseMode = clang_x64, standard = cpp14\<rparr>\<rparr>
     = (\<lparr>includes = 2, defines = 1, forcedIncludes = 3,
         intelliSenseMode = clang_x64, standard = cpp14\<rparr>,
        \<lparr>sets = [{''/usr/include''}, {''pre.h''}, {''/usr/include''}, {''pre.h''}],
         maps = [[''A'' \<mapsto> 0], [''A'' \<mapsto> 0]],
         objs = [\<lparr>key = ''A'', value = ''1''\<rparr>]\<rparr>)
   \<and> defines (readConfig
         \<lparr>sets = [{''/usr/include''}, {''pre.h''}], maps = [[''A'' \<mapsto> 0]],
          objs = [\<lparr>key = ''A'', value = ''1''\<rparr>]\<rparr>
         \<lparr>includes = 0, defines = 0, forcedIncludes = 1,
          intelliSenseMode = clang_x64, standard = cpp14\<rparr>) ''A''
       = Some \<lparr>key = ''A'', value = ''1''\<rparr>
   \<and> defines (readConfig
         (writeDefine
            \<lparr>sets = [{''/usr/include''}, {''pre.h''}, {''/usr/include''}, {''pre.h''}],
             maps = [[''A'' \<mapsto> 0], [''A'' \<mapsto> 0]],
             objs = [\<lparr>key = ''A'', value = ''1''\<rparr>]\<rparr>
            0 \<lparr>key = ''A'', value = ''2''\<rparr>)
         \<lparr>includes = 0, defines = 0, forcedIncludes = 1,
          intelliSenseMode = clang_x64, standard = cpp14\<rparr>) ''A''
       = Some \<lparr>key = ''A'', value = ''2''\<rparr>"
  by (intro conjI example_clone) (simp_all add: readConfig_def writeDefine_def)

end
